theory Spec2Isabelle
  imports Main "HOL-Library.Word" "HOL-Library.Log_Nat" "HOL-Library.Monad_Syntax"
begin

unbundle bit_operations_syntax

section \<open>The GoodWe inverter client of main.go\<close>

text \<open>
  The development follows \<^verbatim>\<open>main.go\<close>: the CRC16 of the wire format, the fixed-point
  decoder (\<^verbatim>\<open>pow10\<close>, \<^verbatim>\<open>round\<close>, \<^verbatim>\<open>Parse16\<close>, \<^verbatim>\<open>Parse32\<close>), the frame parser
  \<^verbatim>\<open>parsePayload\<close>, one UDP exchange \<^verbatim>\<open>getData\<close> and the retry loop \<^verbatim>\<open>GetData\<close>.
  Bytes are 8-bit words, the CRC register a 16-bit word. Go's \<^verbatim>\<open>int\<close> is \<open>int\<close>
  (no operation of the modelled code overflows 64 bits on the inputs considered).
  A run-time panic (slice or index out of range) is the error \<open>Panic\<close>; an error
  value returned by the Go code is one of the other constructors of \<open>error\<close>.
\<close>

type_synonym byte = "8 word"

datatype error =
    Panic
  | Net string
  | BadResponseSize int
  | InvalidHeader "byte list"
  | Err string

subsection \<open>float64\<close>

text \<open>
  A finite \<^verbatim>\<open>float64\<close> is the rational number it denotes. Every arithmetic operation
  of the Go code is the exact operation followed by \<open>fl\<close>, the IEEE 754 rounding to the
  nearest binary64 value, ties to even: a significand of 53 bits above the exponent
  \<open>-1074\<close>, where the subnormal numbers start. \<open>flog2 x\<close> is the binary exponent of a
  positive \<open>x\<close>, that is \<open>pow2 (flog2 x) \<le> x < pow2 (flog2 x + 1)\<close>. Infinities and NaN
  are not represented: the model is the Go program wherever all intermediate results
  are finite and below \<open>2 ^ 1024\<close> in magnitude and no division is by zero, which
  holds for every call that \<^verbatim>\<open>parsePayload\<close> makes. Each operation is rounded on its
  own (no fused multiply-add), as the Go compiler does on amd64.
\<close>

type_synonym float64 = rat

definition pow2 :: "int \<Rightarrow> rat" where
  "pow2 e = (if 0 \<le> e then 2 ^ nat e else 1 / 2 ^ nat (- e))"

definition flog2 :: "rat \<Rightarrow> int" where
  "flog2 x = (let (p, q) = quotient_of x; d = bitlen p - bitlen q
              in if pow2 d \<le> x then d else d - 1)"

definition rne :: "rat \<Rightarrow> int" where
  "rne x = (let f = \<lfloor>x\<rfloor>; r = x - of_int f
            in if r < 1 / 2 then f else if 1 / 2 < r then f + 1
               else if even f then f else f + 1)"

definition fl :: "rat \<Rightarrow> float64" where
  "fl x = (if x = 0 then 0
           else let a = \<bar>x\<bar>; e = max (flog2 a - 52) (- 1074)
                in sgn x * of_int (rne (a * pow2 (- e))) * pow2 e)"

text \<open>The exponent of the last place of a positive \<open>x\<close>, as \<open>fl\<close> chooses it.\<close>

definition fexp :: "rat \<Rightarrow> int" where
  "fexp x = max (flog2 x - 52) (- 1074)"

text \<open>\<^verbatim>\<open>int64(f)\<close> on a float64 truncates towards zero.\<close>

definition int64_of_float :: "float64 \<Rightarrow> int" where
  "int64_of_float f = (if 0 \<le> f then \<lfloor>f\<rfloor> else \<lceil>f\<rceil>)"

subsection \<open>CRC16\<close>

text \<open>
  \<^verbatim>\<open>CRC16\<close>: the register starts at \<^verbatim>\<open>0xFFFF\<close>; for each byte, \<^verbatim>\<open>crc ^= uint16(b)\<close>
  and then eight rounds of the body \<open>crc_bit\<close>; the result is
  \<^verbatim>\<open>[]byte{byte(crc), byte(crc >> 8)}\<close>.
\<close>

definition crc_bit :: "16 word \<Rightarrow> 16 word" where
  "crc_bit crc = (if crc AND 1 \<noteq> 0 then drop_bit 1 crc XOR 0xA001 else drop_bit 1 crc)"

fun crc_bits :: "nat \<Rightarrow> 16 word \<Rightarrow> 16 word" where
  "crc_bits 0 crc = crc"
| "crc_bits (Suc n) crc = crc_bits n (crc_bit crc)"

definition crc_byte :: "16 word \<Rightarrow> byte \<Rightarrow> 16 word" where
  "crc_byte crc b = crc_bits 8 (crc XOR ucast b)"

definition CRC16 :: "byte list \<Rightarrow> byte list" where
  "CRC16 data = (let crc = foldl crc_byte 0xFFFF data
                 in [ucast crc, ucast (drop_bit 8 crc)])"

text \<open>
  The checksum as the specification words it, on natural numbers: a register below
  \<open>2 ^ 16\<close>, the byte XORed into its low byte, eight times "shift right one bit, and
  XOR with the polynomial when the low bit was set", low byte emitted first.
\<close>

definition spec_shift :: "nat \<Rightarrow> nat" where
  "spec_shift r = (if odd r then (r div 2) XOR 0xA001 else r div 2)"

definition spec_byte :: "nat \<Rightarrow> nat \<Rightarrow> nat" where
  "spec_byte r b = (spec_shift ^^ 8) ((r div 256) * 256 + ((r mod 256) XOR b))"

definition checksum_spec :: "nat list \<Rightarrow> nat list" where
  "checksum_spec bs = (let r = foldl spec_byte 0xFFFF bs in [r mod 256, r div 256])"

subsection \<open>The fixed-point decoder\<close>

text \<open>
  \<^verbatim>\<open>pow10\<close>: 1 for exponent 0; for a positive exponent the Go expression
  \<^verbatim>\<open>float64(int64(10) ^ int64(exp))\<close>, where \<^verbatim>\<open>^\<close> is Go's bitwise exclusive or;
  for a negative exponent the loop that divides 1.0 by 10, \<open>-exp\<close> times.
\<close>

fun pow10_loop :: "nat \<Rightarrow> float64 \<Rightarrow> float64" where
  "pow10_loop 0 v = v"
| "pow10_loop (Suc n) v = pow10_loop n (fl (v / 10))"

definition pow10 :: "int \<Rightarrow> float64" where
  "pow10 ex = (if ex = 0 then 1
               else if ex > 0 then fl (of_int (10 XOR ex))
               else pow10_loop (nat (- ex)) 1)"

text \<open>\<^verbatim>\<open>round\<close>: \<^verbatim>\<open>float64(int64(f*scale+0.5)) / scale\<close> with \<^verbatim>\<open>scale := pow10(places)\<close>.\<close>

definition round_f :: "float64 \<Rightarrow> int \<Rightarrow> float64" where
  "round_f f places =
     (let scale = pow10 places
      in fl (fl (of_int (int64_of_float (fl (fl (f * scale) + 1 / 2)))) / scale))"

text \<open>
  \<^verbatim>\<open>binary.BigEndian.Uint16\<close> and \<^verbatim>\<open>Uint32\<close> index their argument at 1 and at 3 first
  and panic on a shorter slice (\<open>None\<close>).
\<close>

fun Uint16 :: "byte list \<Rightarrow> 16 word option" where
  "Uint16 (b0 # b1 # _) = Some (ucast b1 OR push_bit 8 (ucast b0))"
| "Uint16 _ = None"

fun Uint32 :: "byte list \<Rightarrow> 32 word option" where
  "Uint32 (b0 # b1 # b2 # b3 # _) =
     Some (ucast b3 OR push_bit 8 (ucast b2) OR push_bit 16 (ucast b1) OR push_bit 24 (ucast b0))"
| "Uint32 _ = None"

definition Parse16 :: "byte list \<Rightarrow> int \<Rightarrow> float64 option" where
  "Parse16 b ex =
     (case Uint16 b of None \<Rightarrow> None
      | Some w \<Rightarrow> Some (round_f (fl (fl (of_int (uint w)) * pow10 ex)) (- ex)))"

definition Parse32 :: "byte list \<Rightarrow> int \<Rightarrow> float64 option" where
  "Parse32 b ex =
     (case Uint32 b of None \<Rightarrow> None
      | Some w \<Rightarrow> Some (round_f (fl (fl (of_int (uint w)) * pow10 ex)) (- ex)))"

subsection \<open>The frame parser\<close>

text \<open>
  A slice expression \<^verbatim>\<open>xs[lo:hi]\<close> on a Go slice panics unless
  \<open>lo \<le> hi \<le> cap(xs)\<close>: the bound is the capacity, not the length, and bytes of
  the backing array beyond \<open>len(xs)\<close> can be read this way. In \<open>subslice xs lo hi\<close>
  the list \<open>xs\<close> therefore holds the operand up to its capacity, and the result is
  the list of the \<open>hi - lo\<close> elements of the new slice. \<^verbatim>\<open>parsePayload\<close> uses its
  argument in slice expressions only (never \<^verbatim>\<open>len(data)\<close>, never \<^verbatim>\<open>data[i]\<close>), so
  its argument in the model is the payload up to its capacity as well: a payload of
  149 bytes is a list of at least 149 bytes, the first 149 of them the payload and
  the others the spare capacity behind it. \<open>upto_cap xs lo\<close> is the slice
  \<^verbatim>\<open>xs[lo:hi]\<close> up to its capacity, which is \<open>cap(xs) - lo\<close> for every \<open>hi\<close>.
\<close>

definition subslice :: "'a list \<Rightarrow> nat \<Rightarrow> nat \<Rightarrow> 'a list option" where
  "subslice xs lo hi = (if lo \<le> hi \<and> hi \<le> length xs then Some (take (hi - lo) (drop lo xs)) else None)"

definition upto_cap :: "'a list \<Rightarrow> nat \<Rightarrow> 'a list" where
  "upto_cap xs lo = drop lo xs"

record Data =
  Sample :: nat
  VoltageDC :: "float64 list"
  CurrentDC :: "float64 list"
  PowerDC :: "float64 list"
  VoltageAC :: "float64 list"
  CurrentAC :: "float64 list"
  FrequencyAC :: "float64 list"
  PowerAC :: float64
  Status :: int
  Temperature :: float64
  YieldToday :: float64
  YieldTotal :: float64
  WorkingHours :: float64

text \<open>\<^verbatim>\<open>&Data{Sample: time.Now()}\<close>: every other field has its zero value.\<close>

definition new_Data :: "nat \<Rightarrow> Data" where
  "new_Data now =
     \<lparr>Sample = now, VoltageDC = replicate 4 0, CurrentDC = replicate 4 0,
      PowerDC = replicate 4 0, VoltageAC = replicate 3 0, CurrentAC = replicate 3 0,
      FrequencyAC = replicate 3 0, PowerAC = 0, Status = 0, Temperature = 0,
      YieldToday = 0, YieldTotal = 0, WorkingHours = 0\<rparr>"

text \<open>\<open>field16 data off ex\<close> is \<^verbatim>\<open>Parse16(data[off:off+2], ex)\<close>.\<close>

definition field16 :: "byte list \<Rightarrow> nat \<Rightarrow> int \<Rightarrow> float64 option" where
  "field16 data off ex = (case subslice data off (off + 2) of None \<Rightarrow> None | Some b \<Rightarrow> Parse16 b ex)"

definition field32 :: "byte list \<Rightarrow> nat \<Rightarrow> int \<Rightarrow> float64 option" where
  "field32 data off ex = (case subslice data off (off + 4) of None \<Rightarrow> None | Some b \<Rightarrow> Parse32 b ex)"

text \<open>The body of the loop over the four DC inputs.\<close>

definition dc_input :: "byte list \<Rightarrow> nat \<Rightarrow> Data \<Rightarrow> Data option" where
  "dc_input data i d = do {
     let vi = 9 + i * 4;
     v \<leftarrow> field16 data vi (- 1);
     let d1 = d\<lparr>VoltageDC := (VoltageDC d)[i := v]\<rparr>;
     c \<leftarrow> field16 data (vi + 2) (- 1);
     let d2 = d1\<lparr>CurrentDC := (CurrentDC d1)[i := c]\<rparr>;
     Some (d2\<lparr>PowerDC := (PowerDC d2)[i := fl (VoltageDC d2 ! i * CurrentDC d2 ! i)]\<rparr>)
   }"

text \<open>\<open>dc_inputs k i\<close> runs the \<open>k\<close> remaining iterations of the loop from index \<open>i\<close>.\<close>

fun dc_inputs :: "byte list \<Rightarrow> nat \<Rightarrow> nat \<Rightarrow> Data \<Rightarrow> Data option" where
  "dc_inputs data 0 i d = Some d"
| "dc_inputs data (Suc k) i d =
     (case dc_input data i d of None \<Rightarrow> None | Some d' \<Rightarrow> dc_inputs data k (i + 1) d')"

text \<open>
  The body of the loop over the three AC phases, with the test
  \<^verbatim>\<open>if i > 0 && v == 6553.5\<close> that zeroes the phase.
\<close>

definition ac_output :: "byte list \<Rightarrow> nat \<Rightarrow> Data \<Rightarrow> Data option" where
  "ac_output data i d = do {
     let vi = 39 + i * 2;
     let ci = 45 + i * 2;
     let fi = 51 + i * 2;
     v \<leftarrow> field16 data vi (- 1);
     c \<leftarrow> field16 data ci (- 1);
     f \<leftarrow> field16 data fi (- 2);
     let (v, c, f) = (if i > 0 \<and> v = 6553.5 then (0, 0, 0) else (v, c, f));
     Some (d\<lparr>VoltageAC := (VoltageAC d)[i := v],
             CurrentAC := (CurrentAC d)[i := c],
             FrequencyAC := (FrequencyAC d)[i := f]\<rparr>)
   }"

fun ac_outputs :: "byte list \<Rightarrow> nat \<Rightarrow> nat \<Rightarrow> Data \<Rightarrow> Data option" where
  "ac_outputs data 0 i d = Some d"
| "ac_outputs data (Suc k) i d =
     (case ac_output data i d of None \<Rightarrow> None | Some d' \<Rightarrow> ac_outputs data k (i + 1) d')"

text \<open>Everything \<^verbatim>\<open>parsePayload\<close> decodes before its plausibility test; \<open>None\<close> is a panic.\<close>

definition decode :: "nat \<Rightarrow> byte list \<Rightarrow> Data option" where
  "decode now data = do {
     d \<leftarrow> dc_inputs data 4 0 (new_Data now);
     d \<leftarrow> ac_outputs data 3 0 d;
     pac \<leftarrow> field16 data 59 0;
     st \<leftarrow> field16 data 61 0;
     temp \<leftarrow> field16 data 85 (- 1);
     ytoday \<leftarrow> field16 data 91 (- 1);
     ytotal \<leftarrow> field32 data 93 0;
     wh \<leftarrow> field16 data 99 0;
     Some (d\<lparr>PowerAC := pac, Status := int64_of_float st, Temperature := temp,
             YieldToday := ytoday, YieldTotal := ytotal, WorkingHours := wh\<rparr>)
   }"

definition parsePayload :: "nat \<Rightarrow> byte list \<Rightarrow> error + Data" where
  "parsePayload now data =
     (case decode now data of
        None \<Rightarrow> Inl Panic
      | Some d \<Rightarrow>
          if YieldToday d > 6500 \<or> YieldTotal d > 4000000
          then Inl (Err ''unrealistic yield values'')
          else Inr d)"

subsection \<open>One exchange and the retry loop\<close>

text \<open>
  What the network does during one call of \<^verbatim>\<open>getData\<close> is given from outside:
  the error (if any) of \<^verbatim>\<open>net.DialTimeout\<close>, of \<^verbatim>\<open>conn.SetDeadline\<close>, of
  \<^verbatim>\<open>conn.Write\<close> and of \<^verbatim>\<open>conn.Read\<close>, the datagram that arrives, and the time at
  which \<^verbatim>\<open>parsePayload\<close> runs.
\<close>

record exchange =
  dial_err :: "string option"
  deadline_err :: "string option"
  write_err :: "string option"
  read_err :: "string option"
  datagram :: "byte list"
  clock :: nat

datatype event = Dial | SetDeadline | Write "byte list" | Read | Close | Sleep

text \<open>
  \<^verbatim>\<open>n, err := conn.Read(buf)\<close> with \<^verbatim>\<open>buf := make([]byte, 153)\<close>: a read on a UDP
  socket takes one datagram and stores as much of it as the buffer holds; what does
  not fit is discarded without an error (the behaviour of the Linux image that the
  Dockerfile builds), and \<open>n\<close> is the number of bytes stored. \<open>rbuf\<close> is the buffer
  after the read, always 153 bytes long.
\<close>

definition read_n :: "exchange \<Rightarrow> int" where
  "read_n io = int (min (length (datagram io)) 153)"

definition rbuf :: "exchange \<Rightarrow> byte list" where
  "rbuf io = take 153 (datagram io @ replicate 153 0)"

definition discovery :: "byte list" where
  "discovery = [0x7f, 0x03, 0x75, 0x94, 0x00, 0x49]"

text \<open>
  \<^verbatim>\<open>getData\<close> returns its result together with the socket operations it performed;
  the deferred \<^verbatim>\<open>conn.Close()\<close> runs on every return after a successful dial.
  \<^verbatim>\<open>payload := buf[2:151]\<close> has length 149 and capacity 151: \<^verbatim>\<open>CRC16\<close> ranges over
  its 149 elements, \<^verbatim>\<open>parsePayload\<close> gets it with its capacity.
\<close>

definition getData :: "exchange \<Rightarrow> (error + Data) \<times> event list" where
  "getData io =
     (case dial_err io of
        Some e \<Rightarrow> (Inl (Net e), [Dial])
      | None \<Rightarrow>
     (case deadline_err io of
        Some e \<Rightarrow> (Inl (Net e), [Dial, SetDeadline, Close])
      | None \<Rightarrow>
     (let request = discovery @ CRC16 discovery in
      case write_err io of
        Some e \<Rightarrow> (Inl (Net e), [Dial, SetDeadline, Write request, Close])
      | None \<Rightarrow>
     (let tr = [Dial, SetDeadline, Write request, Read, Close];
          buf = rbuf io;
          n = read_n io
      in if read_err io \<noteq> None \<or> n \<noteq> 153 then (Inl (BadResponseSize n), tr)
         else case subslice buf 0 2 of
           None \<Rightarrow> (Inl Panic, tr)
         | Some hdr \<Rightarrow>
         if hdr \<noteq> [0xAA, 0x55] then (Inl (InvalidHeader hdr), tr)
         else case subslice buf 2 151 of
           None \<Rightarrow> (Inl Panic, tr)
         | Some payload \<Rightarrow>
         (case subslice buf 151 (length buf) of
           None \<Rightarrow> (Inl Panic, tr)
         | Some trailer \<Rightarrow>
         if CRC16 payload \<noteq> trailer then (Inl (Err ''CRC mismatch''), tr)
         else (parsePayload (clock io) (upto_cap buf 2), tr))))))"

text \<open>
  \<^verbatim>\<open>GetData\<close>: \<open>net k\<close> is what the network does during the call of \<^verbatim>\<open>getData\<close>
  in iteration \<open>k\<close>. A panic is not an error value and ends the loop.
\<close>

function GetData_loop ::
  "(nat \<Rightarrow> exchange) \<Rightarrow> int \<Rightarrow> int \<Rightarrow> event list \<Rightarrow> (error + Data) \<times> event list" where
  "GetData_loop net retries i tr =
     (if i < retries then
        (let (r, t) = getData (net (nat i)) in
         case r of
           Inr d \<Rightarrow> (Inr d, tr @ t)
         | Inl e \<Rightarrow>
             if e = Panic then (Inl Panic, tr @ t)
             else GetData_loop net retries (i + 1)
                    (tr @ t @ (if i < retries - 1 then [Sleep] else [])))
      else (Inl (Err ''failed to get data after retries''), tr))"
  by pat_completeness auto
termination
  by (relation "measure (\<lambda>(net, retries, i, tr). nat (retries - i))") auto

declare GetData_loop.simps [simp del]

definition GetData :: "(nat \<Rightarrow> exchange) \<Rightarrow> int \<Rightarrow> (error + Data) \<times> event list" where
  "GetData net retries = GetData_loop net retries 0 []"

text \<open>The number of exchange attempts and of one-second waits in a trace.\<close>

definition attempts :: "event list \<Rightarrow> nat" where
  "attempts tr = length (filter (\<lambda>e. e = Dial) tr)"

definition sleeps :: "event list \<Rightarrow> nat" where
  "sleeps tr = length (filter (\<lambda>e. e = Sleep) tr)"

subsection \<open>The decoded fields in closed form\<close>

text \<open>
  For stating what \<^verbatim>\<open>parsePayload\<close> computes: the big-endian integer stored at an
  offset of the payload, the value \<^verbatim>\<open>Parse16\<close> and \<^verbatim>\<open>Parse32\<close> make of such an
  integer, one AC phase after the sentinel test, and the whole snapshot.
\<close>

definition raw16 :: "byte list \<Rightarrow> nat \<Rightarrow> int" where
  "raw16 data off = uint (ucast (data ! (off + 1)) OR push_bit 8 (ucast (data ! off)) :: 16 word)"

definition raw32 :: "byte list \<Rightarrow> nat \<Rightarrow> int" where
  "raw32 data off =
     uint (ucast (data ! (off + 3)) OR push_bit 8 (ucast (data ! (off + 2)))
           OR push_bit 16 (ucast (data ! (off + 1))) OR push_bit 24 (ucast (data ! off)) :: 32 word)"

definition scaled :: "int \<Rightarrow> int \<Rightarrow> float64" where
  "scaled raw ex = round_f (fl (fl (of_int raw) * pow10 ex)) (- ex)"

definition ac_phase :: "byte list \<Rightarrow> nat \<Rightarrow> float64 \<times> float64 \<times> float64" where
  "ac_phase data i =
     (let v = scaled (raw16 data (39 + i * 2)) (- 1);
          c = scaled (raw16 data (45 + i * 2)) (- 1);
          f = scaled (raw16 data (51 + i * 2)) (- 2)
      in if i > 0 \<and> v = 6553.5 then (0, 0, 0) else (v, c, f))"

definition decoded :: "nat \<Rightarrow> byte list \<Rightarrow> Data" where
  "decoded now data =
     \<lparr>Sample = now,
      VoltageDC = map (\<lambda>i. scaled (raw16 data (9 + i * 4)) (- 1)) [0, 1, 2, 3],
      CurrentDC = map (\<lambda>i. scaled (raw16 data (11 + i * 4)) (- 1)) [0, 1, 2, 3],
      PowerDC = map (\<lambda>i. fl (scaled (raw16 data (9 + i * 4)) (- 1)
                              * scaled (raw16 data (11 + i * 4)) (- 1))) [0, 1, 2, 3],
      VoltageAC = map (\<lambda>i. fst (ac_phase data i)) [0, 1, 2],
      CurrentAC = map (\<lambda>i. fst (snd (ac_phase data i))) [0, 1, 2],
      FrequencyAC = map (\<lambda>i. snd (snd (ac_phase data i))) [0, 1, 2],
      PowerAC = scaled (raw16 data 59) 0,
      Status = int64_of_float (scaled (raw16 data 61) 0),
      Temperature = scaled (raw16 data 85) (- 1),
      YieldToday = scaled (raw16 data 91) (- 1),
      YieldTotal = scaled (raw32 data 93) 0,
      WorkingHours = scaled (raw16 data 99) 0\<rparr>"

subsection \<open>Sample payloads\<close>

text \<open>
  A payload of zeros with \<open>FF FF\<close> in the voltage field of AC phase 1, one with
  status bytes \<open>12 34\<close>, and one whose total yield field
  holds \<open>4000000 + b\<close> (\<open>003D0900\<close> in hexadecimal, plus the last byte).
\<close>

definition sentinel_payload :: "byte list" where
  "sentinel_payload = (replicate 149 0)[41 := 0xFF, 42 := 0xFF]"

definition status_payload :: "byte list" where
  "status_payload = (replicate 149 0)[61 := 0x12, 62 := 0x34]"

definition yield_payload :: "byte \<Rightarrow> byte list" where
  "yield_payload b = (replicate 149 0)[93 := 0x00, 94 := 0x3D, 95 := 0x09, 96 := b]"

subsection \<open>Sample exchanges\<close>

text \<open>
  A read that times out; a well-formed response of 153 bytes around a payload of
  zeros; and a datagram of 154 bytes, that response followed by one more byte.
\<close>

definition timeout_io :: exchange where
  "timeout_io = \<lparr>dial_err = None, deadline_err = None, write_err = None,
                 read_err = Some ''i/o timeout'', datagram = [], clock = 0\<rparr>"

definition good_io :: exchange where
  "good_io = \<lparr>dial_err = None, deadline_err = None, write_err = None,
              read_err = None,
              datagram = [0xAA, 0x55] @ replicate 149 0 @ CRC16 (replicate 149 0),
              clock = 0\<rparr>"

definition long_io :: exchange where
  "long_io = good_io\<lparr>datagram := datagram good_io @ [0x00]\<rparr>"

section \<open>Properties of the rounding function\<close>

text \<open>
  Powers of two with an integer exponent, the bounds that define the binary exponent,
  and the fact the decoder relies on for exponent 0: a number with a significand of
  at most 53 bits is its own rounding.
\<close>

lemma pow2_powi: "pow2 e = 2 powi e"
  by (simp add: pow2_def power_int_def power_inverse inverse_eq_divide power_one_over)

lemma pow2_pos: "0 < pow2 e"
  by (simp add: pow2_powi)

lemma pow2_add: "pow2 (a + b) = pow2 a * pow2 b"
  by (simp add: pow2_powi power_int_add)

lemma pow2_nat: "pow2 (int n) = 2 ^ n"
  by (simp add: pow2_powi)

lemma pow2_less_iff: "pow2 a < pow2 b \<longleftrightarrow> a < b"
proof
  assume "pow2 a < pow2 b"
  show "a < b"
  proof (rule ccontr)
    assume "\<not> a < b"
    then have "b \<le> a" by simp
    then have "pow2 b \<le> pow2 a"
      unfolding pow2_powi by (intro power_int_increasing) auto
    with \<open>pow2 a < pow2 b\<close> show False by simp
  qed
next
  assume "a < b"
  then show "pow2 a < pow2 b"
    unfolding pow2_powi by (intro power_int_strict_increasing) auto
qed

lemma flog2_bounds:
  assumes "0 < x"
  shows "pow2 (flog2 x) \<le> x" and "x < pow2 (flog2 x + 1)"
proof -
  obtain p q where pq: "quotient_of x = (p, q)" by (cases "quotient_of x")
  have q: "0 < q" using pq by (rule quotient_of_denom_pos)
  have x: "x = of_int p / of_int q" using pq by (rule quotient_of_div)
  have p: "0 < p" using assms q by (simp add: x zero_less_divide_iff)
  define bp where "bp = bitlen p"
  define bq where "bq = bitlen q"
  have bp: "2 ^ nat (bp - 1) \<le> p" "p < 2 ^ nat bp"
    using bitlen_bounds [OF p] by (simp_all add: bp_def)
  have bq: "2 ^ nat (bq - 1) \<le> q" "q < 2 ^ nat bq"
    using bitlen_bounds [OF q] by (simp_all add: bq_def)
  have bp1: "1 \<le> bp" using p by (simp add: bp_def bitlen_alt_def)
  have bq1: "1 \<le> bq" using q by (simp add: bq_def bitlen_alt_def)
  have P1: "pow2 (bp - 1) \<le> of_int p"
  proof -
    have "(of_int (2 ^ nat (bp - 1)) :: rat) \<le> of_int p" using bp(1) by (simp only: of_int_le_iff)
    moreover have "pow2 (bp - 1) = 2 ^ nat (bp - 1)" using bp1 by (simp add: pow2_def)
    ultimately show ?thesis by simp
  qed
  have P2: "of_int p < pow2 bp"
  proof -
    have "(of_int p :: rat) < of_int (2 ^ nat bp)" using bp(2) by (simp only: of_int_less_iff)
    moreover have "pow2 bp = 2 ^ nat bp" using bp1 by (simp add: pow2_def)
    ultimately show ?thesis by simp
  qed
  have Q1: "pow2 (bq - 1) \<le> of_int q"
  proof -
    have "(of_int (2 ^ nat (bq - 1)) :: rat) \<le> of_int q" using bq(1) by (simp only: of_int_le_iff)
    moreover have "pow2 (bq - 1) = 2 ^ nat (bq - 1)" using bq1 by (simp add: pow2_def)
    ultimately show ?thesis by simp
  qed
  have Q2: "of_int q < pow2 bq"
  proof -
    have "(of_int q :: rat) < of_int (2 ^ nat bq)" using bq(2) by (simp only: of_int_less_iff)
    moreover have "pow2 bq = 2 ^ nat bq" using bq1 by (simp add: pow2_def)
    ultimately show ?thesis by simp
  qed
  have qr: "(0::rat) < of_int q" using q by simp
  have lo: "pow2 (bp - bq - 1) \<le> x"
  proof -
    have "pow2 (bp - bq - 1) * of_int q \<le> pow2 (bp - bq - 1) * pow2 bq"
      using Q2 pow2_pos [of "bp - bq - 1"] by (intro mult_left_mono) simp_all
    also have "\<dots> = pow2 (bp - 1)" by (simp flip: pow2_add)
    also have "\<dots> \<le> of_int p" by (rule P1)
    finally show ?thesis using qr by (simp add: x pos_le_divide_eq)
  qed
  have hi: "x < pow2 (bp - bq + 1)"
  proof -
    have "of_int p < pow2 bp" by (rule P2)
    also have "\<dots> = pow2 (bp - bq + 1) * pow2 (bq - 1)" by (simp flip: pow2_add)
    also have "\<dots> \<le> pow2 (bp - bq + 1) * of_int q"
      using Q1 pow2_pos [of "bp - bq + 1"] by (intro mult_left_mono) simp_all
    finally show ?thesis using qr by (simp add: x pos_divide_less_eq)
  qed
  have fl2: "flog2 x = (if pow2 (bp - bq) \<le> x then bp - bq else bp - bq - 1)"
    by (simp add: flog2_def pq bp_def bq_def Let_def)
  show "pow2 (flog2 x) \<le> x" using lo by (simp add: fl2)
  show "x < pow2 (flog2 x + 1)" using hi by (auto simp add: fl2 not_le)
qed

lemma rne_of_int: "rne (of_int k) = k"
  by (simp add: rne_def)

lemma fl_exact:
  assumes m: "0 < m" "m < 2 ^ 53" and j: "j \<le> 1074"
  shows "fl (of_int m / 2 ^ j) = of_int m / 2 ^ j"
proof -
  define x :: rat where "x = of_int m / 2 ^ j"
  have x0: "0 < x" using m by (simp add: x_def)
  have "x < of_int (2 ^ 53) / 2 ^ j"
    unfolding x_def using m(2) by (intro divide_strict_right_mono) (simp_all only: of_int_less_iff zero_less_power zero_less_numeral)
  also have "\<dots> = pow2 (53 - int j)"
    by (simp add: pow2_powi power_int_diff)
  finally have "pow2 (flog2 x) < pow2 (53 - int j)"
    using flog2_bounds(1) [OF x0] by simp
  then have L: "flog2 x - 52 \<le> - int j" by (simp add: pow2_less_iff)
  define e where "e = max (flog2 x - 52) (- 1074)"
  have e: "e \<le> - int j" using L j by (simp add: e_def)
  define n where "n = nat (- e - int j)"
  have en: "- e = int j + int n" using e by (simp add: n_def)
  have sc: "x * pow2 (- e) = of_int (m * 2 ^ n)"
    by (simp add: en pow2_add pow2_nat x_def)
  have e': "e = - (int j + int n)" using en by simp
  have "pow2 e * pow2 (int j + int n) = pow2 (e + (int j + int n))"
    by (simp only: pow2_add)
  moreover have "e + (int j + int n) = 0" using e' by simp
  ultimately have "pow2 e * pow2 (int j + int n) = 1" by (simp add: pow2_def)
  then have cancel: "pow2 e * (2 ^ j * 2 ^ n) = 1" by (simp add: pow2_add pow2_nat)
  have "fl x = of_int (m * 2 ^ n) * pow2 e"
    using x0 by (simp add: fl_def Let_def e_def [symmetric] sc rne_of_int del: of_int_mult of_int_power)
  also have "\<dots> = of_int m / 2 ^ j * (pow2 e * (2 ^ j * 2 ^ n))" by simp
  also have "\<dots> = x" by (simp only: cancel x_def mult_1_right)
  finally show ?thesis by (simp add: x_def)
qed

lemma fl_of_int: "0 \<le> n \<Longrightarrow> n < 2 ^ 53 \<Longrightarrow> fl (of_int n) = of_int n"
  using fl_exact [of n 0] by (cases "n = 0") (simp_all add: fl_def)

lemma fl_half: "0 \<le> n \<Longrightarrow> n < 2 ^ 52 \<Longrightarrow> fl (of_int n + 1 / 2) = of_int n + 1 / 2"
proof -
  assume n: "0 \<le> n" "n < 2 ^ 52"
  have eq: "(of_int n + 1 / 2 :: rat) = of_int (2 * n + 1) / 2 ^ 1" by (simp add: field_simps)
  have "fl (of_int (2 * n + 1) / 2 ^ 1) = of_int (2 * n + 1) / 2 ^ 1"
    using n by (intro fl_exact) simp_all
  then show ?thesis by (simp only: eq)
qed

text \<open>
  Rounding is monotone on the non-negative numbers: within one binade by the
  monotonicity of \<open>rne\<close>, across binades because a power of two lies between.
\<close>

lemma fl_pos: "0 < x \<Longrightarrow> fl x = of_int (rne (x * pow2 (- fexp x))) * pow2 (fexp x)"
  by (simp add: fl_def fexp_def Let_def)

lemma pow2_mono: "a \<le> b \<Longrightarrow> pow2 a \<le> pow2 b"
  using pow2_less_iff [of b a] by (simp add: not_less [symmetric])

lemma pow2_of_int: "0 \<le> n \<Longrightarrow> pow2 n = of_int (2 ^ nat n)"
  by (simp add: pow2_def)

lemma pow2_cancel: "pow2 a * pow2 (- a) = 1"
proof -
  have "pow2 a * pow2 (- a) = pow2 (a + - a)" by (simp only: pow2_add)
  then show ?thesis by (simp add: pow2_def)
qed

lemma rne_bounds: "\<lfloor>x\<rfloor> \<le> rne x" "rne x \<le> \<lfloor>x\<rfloor> + 1"
  by (simp_all add: rne_def Let_def)

lemma rne_mono:
  assumes "x \<le> y"
  shows "rne x \<le> rne y"
proof (cases "\<lfloor>x\<rfloor> < \<lfloor>y\<rfloor>")
  case True
  then show ?thesis using rne_bounds(2) [of x] rne_bounds(1) [of y] by linarith
next
  case False
  then have eq: "\<lfloor>x\<rfloor> = \<lfloor>y\<rfloor>" using floor_mono [OF assms] by simp
  have "x - of_int \<lfloor>y\<rfloor> \<le> y - of_int \<lfloor>y\<rfloor>" using assms by simp
  then show ?thesis by (auto simp add: rne_def Let_def eq)
qed

lemma flog2_mono:
  assumes "0 < x" "x \<le> y"
  shows "flog2 x \<le> flog2 y"
proof -
  have y: "0 < y" using assms by simp
  have "pow2 (flog2 x) \<le> x" using assms(1) by (rule flog2_bounds)
  also have "x \<le> y" by fact
  also have "y < pow2 (flog2 y + 1)" using y by (rule flog2_bounds)
  finally show ?thesis by (simp add: pow2_less_iff)
qed

lemma fexp_mono: "0 < x \<Longrightarrow> x \<le> y \<Longrightarrow> fexp x \<le> fexp y"
  using flog2_mono [of x y] by (simp add: fexp_def)

lemma fl_upper:
  assumes "0 < x" "x \<le> pow2 m" "fexp x \<le> m"
  shows "fl x \<le> pow2 m"
proof -
  define e where "e = fexp x"
  have "x * pow2 (- e) \<le> pow2 m * pow2 (- e)"
    using assms(2) pow2_pos [of "- e"] by (intro mult_right_mono) simp_all
  also have "\<dots> = pow2 (m - e)" by (simp flip: pow2_add)
  also have "\<dots> = of_int (2 ^ nat (m - e))" using assms(3) by (intro pow2_of_int) (simp add: e_def)
  finally have "rne (x * pow2 (- e)) \<le> rne (of_int (2 ^ nat (m - e)))" by (rule rne_mono)
  then have "rne (x * pow2 (- e)) \<le> 2 ^ nat (m - e)" by (simp only: rne_of_int)
  then have "(of_int (rne (x * pow2 (- e))) :: rat) \<le> of_int (2 ^ nat (m - e))"
    by (simp only: of_int_le_iff)
  also have "\<dots> = pow2 (m - e)" using assms(3) by (intro pow2_of_int [symmetric]) (simp add: e_def)
  finally have "of_int (rne (x * pow2 (- e))) * pow2 e \<le> pow2 (m - e) * pow2 e"
    using pow2_pos [of e] by (intro mult_right_mono) simp_all
  also have "\<dots> = pow2 m" by (simp flip: pow2_add)
  finally show ?thesis using assms(1) by (simp add: fl_pos e_def)
qed

lemma fl_lower:
  assumes "0 < x" "pow2 m \<le> x" "fexp x \<le> m"
  shows "pow2 m \<le> fl x"
proof -
  define e where "e = fexp x"
  have "pow2 (m - e) = pow2 m * pow2 (- e)" by (simp flip: pow2_add)
  also have "\<dots> \<le> x * pow2 (- e)"
    using assms(2) pow2_pos [of "- e"] by (intro mult_right_mono) simp_all
  finally have "of_int (2 ^ nat (m - e)) \<le> x * pow2 (- e)"
    using assms(3) pow2_of_int [of "m - e"] by (simp add: e_def)
  then have "rne (of_int (2 ^ nat (m - e))) \<le> rne (x * pow2 (- e))" by (rule rne_mono)
  then have "2 ^ nat (m - e) \<le> rne (x * pow2 (- e))" by (simp only: rne_of_int)
  then have "(of_int (2 ^ nat (m - e)) :: rat) \<le> of_int (rne (x * pow2 (- e)))"
    by (simp only: of_int_le_iff)
  then have "pow2 (m - e) \<le> of_int (rne (x * pow2 (- e)))"
    using assms(3) pow2_of_int [of "m - e"] by (simp add: e_def)
  then have "pow2 (m - e) * pow2 e \<le> of_int (rne (x * pow2 (- e))) * pow2 e"
    using pow2_pos [of e] by (intro mult_right_mono) simp_all
  moreover have "pow2 (m - e) * pow2 e = pow2 m" by (simp flip: pow2_add)
  ultimately show ?thesis using assms(1) by (simp add: fl_pos e_def)
qed

lemma fl_mono_pos:
  assumes "0 < x" "x \<le> y"
  shows "fl x \<le> fl y"
proof (cases "fexp x = fexp y")
  case True
  have y: "0 < y" using assms by simp
  define e where "e = fexp y"
  have "x * pow2 (- e) \<le> y * pow2 (- e)"
    using assms(2) pow2_pos [of "- e"] by (intro mult_right_mono) simp_all
  then have "rne (x * pow2 (- e)) \<le> rne (y * pow2 (- e))" by (rule rne_mono)
  then have "(of_int (rne (x * pow2 (- e))) :: rat) \<le> of_int (rne (y * pow2 (- e)))"
    by (simp only: of_int_le_iff)
  then have "of_int (rne (x * pow2 (- e))) * pow2 e \<le> of_int (rne (y * pow2 (- e))) * pow2 e"
    using pow2_pos [of e] by (intro mult_right_mono) simp_all
  then show ?thesis using assms(1) y True by (simp add: fl_pos e_def)
next
  case False
  have y: "0 < y" using assms by simp
  have le: "fexp x < fexp y" using False fexp_mono [OF assms] by simp
  have Lxy: "flog2 x \<le> flog2 y" using assms by (rule flog2_mono)
  have ey: "fexp y = flog2 y - 52" using le by (auto simp add: fexp_def max_def split: if_splits)
  have Lneq: "flog2 x \<noteq> flog2 y" using le by (auto simp add: fexp_def)
  define m where "m = max (flog2 x + 1) (fexp x)"
  have m_le: "m \<le> flog2 y" using Lxy Lneq le ey by (simp add: m_def)
  have "x < pow2 (flog2 x + 1)" using assms(1) by (rule flog2_bounds)
  also have "\<dots> \<le> pow2 m" by (intro pow2_mono) (simp add: m_def)
  finally have "x \<le> pow2 m" by simp
  then have "fl x \<le> pow2 m" using assms(1) by (intro fl_upper) (simp_all add: m_def)
  also have "\<dots> \<le> pow2 (flog2 y)" using m_le by (rule pow2_mono)
  also have "\<dots> \<le> fl y"
    using y flog2_bounds(1) [OF y] ey by (intro fl_lower) simp_all
  finally show ?thesis .
qed

lemma fl_nonneg: "0 \<le> x \<Longrightarrow> 0 \<le> fl x"
proof (cases "x = 0")
  case True
  then show ?thesis by (simp add: fl_def)
next
  case False
  assume "0 \<le> x"
  then have x: "0 < x" using False by simp
  have "0 \<le> x * pow2 (- fexp x)" using x pow2_pos [of "- fexp x"] by simp
  then have "rne 0 \<le> rne (x * pow2 (- fexp x))" by (rule rne_mono)
  then have "0 \<le> rne (x * pow2 (- fexp x))" using rne_of_int [of 0] by simp
  then show ?thesis using x pow2_pos [of "fexp x"] by (simp add: fl_pos)
qed

lemma fl_mono:
  assumes "0 \<le> x" "x \<le> y"
  shows "fl x \<le> fl y"
proof (cases "x = 0")
  case True
  then show ?thesis using fl_nonneg [of y] assms by (simp add: fl_def)
next
  case False
  then show ?thesis using assms by (intro fl_mono_pos) simp_all
qed

section \<open>What the frame parser computes\<close>

lemma slice2: "off + 2 \<le> length xs \<Longrightarrow> subslice xs off (off + 2) = Some [xs ! off, xs ! (off + 1)]"
  by (simp add: subslice_def numeral_2_eq_2 take_Suc_conv_app_nth Cons_nth_drop_Suc [symmetric])

lemma slice4:
  "off + 4 \<le> length xs \<Longrightarrow>
   subslice xs off (off + 4) = Some [xs ! off, xs ! (off + 1), xs ! (off + 2), xs ! (off + 3)]"
  by (simp add: subslice_def eval_nat_numeral Cons_nth_drop_Suc [symmetric])

lemma field16_eq: "off + 2 \<le> length data \<Longrightarrow> field16 data off ex = Some (scaled (raw16 data off) ex)"
  using slice2 [of off data] by (simp add: field16_def Parse16_def scaled_def raw16_def)

lemma field32_eq: "off + 4 \<le> length data \<Longrightarrow> field32 data off ex = Some (scaled (raw32 data off) ex)"
  using slice4 [of off data] by (simp add: field32_def Parse32_def scaled_def raw32_def)

lemma dc_input_eq:
  assumes "i * 4 + 13 \<le> length data"
  shows "dc_input data i d =
     Some (d\<lparr>VoltageDC := (VoltageDC d)[i := scaled (raw16 data (9 + i * 4)) (- 1)],
             CurrentDC := (CurrentDC d)[i := scaled (raw16 data (11 + i * 4)) (- 1)],
             PowerDC := (PowerDC d)[i :=
                fl ((VoltageDC d)[i := scaled (raw16 data (9 + i * 4)) (- 1)] ! i
                    * (CurrentDC d)[i := scaled (raw16 data (11 + i * 4)) (- 1)] ! i)]\<rparr>)"
  using assms by (simp add: dc_input_def field16_eq Let_def add.commute)

lemma ac_output_eq:
  assumes "i * 2 + 53 \<le> length data"
  shows "ac_output data i d =
     Some (d\<lparr>VoltageAC := (VoltageAC d)[i := fst (ac_phase data i)],
             CurrentAC := (CurrentAC d)[i := fst (snd (ac_phase data i))],
             FrequencyAC := (FrequencyAC d)[i := snd (snd (ac_phase data i))]\<rparr>)"
  using assms by (simp add: ac_output_def field16_eq Let_def ac_phase_def)

lemma dc_inputs_eq:
  assumes "101 \<le> length data"
  shows "dc_inputs data 4 0 (new_Data now) =
     Some ((new_Data now)
       \<lparr>VoltageDC := map (\<lambda>i. scaled (raw16 data (9 + i * 4)) (- 1)) [0, 1, 2, 3],
        CurrentDC := map (\<lambda>i. scaled (raw16 data (11 + i * 4)) (- 1)) [0, 1, 2, 3],
        PowerDC := map (\<lambda>i. fl (scaled (raw16 data (9 + i * 4)) (- 1)
                              * scaled (raw16 data (11 + i * 4)) (- 1))) [0, 1, 2, 3]\<rparr>)"
  using assms by (simp add: eval_nat_numeral dc_input_eq new_Data_def)

lemma ac_outputs_eq:
  assumes "101 \<le> length data" and "length (VoltageAC d) = 3" "length (CurrentAC d) = 3"
    "length (FrequencyAC d) = 3"
  shows "ac_outputs data 3 0 d =
     Some (d\<lparr>VoltageAC := map (\<lambda>i. fst (ac_phase data i)) [0, 1, 2],
             CurrentAC := map (\<lambda>i. fst (snd (ac_phase data i))) [0, 1, 2],
             FrequencyAC := map (\<lambda>i. snd (snd (ac_phase data i))) [0, 1, 2]\<rparr>)"
proof -
  obtain a0 a1 a2 where a: "VoltageAC d = [a0, a1, a2]"
    using assms(2) by (auto simp: length_Suc_conv eval_nat_numeral)
  obtain b0 b1 b2 where b: "CurrentAC d = [b0, b1, b2]"
    using assms(3) by (auto simp: length_Suc_conv eval_nat_numeral)
  obtain c0 c1 c2 where c: "FrequencyAC d = [c0, c1, c2]"
    using assms(4) by (auto simp: length_Suc_conv eval_nat_numeral)
  show ?thesis
    using assms(1) by (simp add: eval_nat_numeral ac_output_eq a b c)
qed

lemma decode_eq:
  assumes "101 \<le> length data"
  shows "decode now data = Some (decoded now data)"
proof -
  have "decode now data = do {
     d \<leftarrow> Some ((new_Data now)
       \<lparr>VoltageDC := map (\<lambda>i. scaled (raw16 data (9 + i * 4)) (- 1)) [0, 1, 2, 3],
        CurrentDC := map (\<lambda>i. scaled (raw16 data (11 + i * 4)) (- 1)) [0, 1, 2, 3],
        PowerDC := map (\<lambda>i. fl (scaled (raw16 data (9 + i * 4)) (- 1)
                              * scaled (raw16 data (11 + i * 4)) (- 1))) [0, 1, 2, 3]\<rparr>);
     d \<leftarrow> ac_outputs data 3 0 d;
     pac \<leftarrow> field16 data 59 0;
     st \<leftarrow> field16 data 61 0;
     temp \<leftarrow> field16 data 85 (- 1);
     ytoday \<leftarrow> field16 data 91 (- 1);
     ytotal \<leftarrow> field32 data 93 0;
     wh \<leftarrow> field16 data 99 0;
     Some (d\<lparr>PowerAC := pac, Status := int64_of_float st, Temperature := temp,
             YieldToday := ytoday, YieldTotal := ytotal, WorkingHours := wh\<rparr>)
   }"
    by (simp only: decode_def dc_inputs_eq [OF assms])
  also have "\<dots> = Some (decoded now data)"
    using assms
    by (simp add: ac_outputs_eq field16_eq field32_eq decoded_def new_Data_def)
  finally show ?thesis .
qed

lemma parsePayload_eq:
  assumes "101 \<le> length data"
  shows "parsePayload now data =
     (if YieldToday (decoded now data) > 6500 \<or> YieldTotal (decoded now data) > 4000000
      then Inl (Err ''unrealistic yield values'') else Inr (decoded now data))"
  using assms by (simp add: parsePayload_def decode_eq)

section \<open>The decoder on concrete fields\<close>

text \<open>
  The scale factors the program uses. \<^verbatim>\<open>round\<close> calls \<^verbatim>\<open>pow10\<close> with the number of
  decimal places, a positive number for the exponents \<open>-1\<close> and \<open>-2\<close> of the payload
  fields, and gets \<open>10 XOR 1 = 11\<close> and \<open>10 XOR 2 = 8\<close> from it.
\<close>

lemma pow10_small: "pow10 0 = 1" "pow10 1 = 11" "pow10 2 = 8"
  by code_simp+

lemma pow10_neg: "pow10 (- 1) = 3602879701896397 / 36028797018963968"
  "pow10 (- 2) = 5764607523034235 / 576460752303423488"
  by code_simp+

lemma Parse16_2345: "Parse16 [0x09, 0x29] (- 1) = Some (8252334544471505 / 35184372088832)"
  by code_simp

lemma Parse16_zero: "Parse16 [0x00, 0x00] 0 = Some 0"
  by code_simp

text \<open>
  C1. The decode vector of the specification: \<^verbatim>\<open>Parse16\<close> of the bytes \<open>09 29\<close> (raw
  2345) with exponent \<open>-1\<close> should be exactly 234.5, and of \<open>00 00\<close> with exponent 0
  exactly 0. The code returns the float64 nearest to \<open>2580 / 11\<close>, about 234.545,
  for the first: the raw value is scaled to 234.5, then \<^verbatim>\<open>round\<close> multiplies by
  \<open>pow10 1 = 11\<close>, adds 0.5, truncates to 2580 and divides by 11. The second vector
  holds.
\<close>

theorem decode_vector_2345:
  "Parse16 [0x09, 0x29] (- 1) = Some (8252334544471505 / 35184372088832)
   \<and> Parse16 [0x09, 0x29] (- 1) \<noteq> Some 234.5
   \<and> Parse16 [0x00, 0x00] 0 = Some 0"
  by (simp add: Parse16_2345 Parse16_zero)

lemma Parse16_ten: "Parse16 [0x00, 0x0A] 1 = Some 110"
  by code_simp

lemma Parse32_ten: "Parse32 [0x00, 0x00, 0x00, 0x0A] 1 = Some 110"
  by code_simp

text \<open>
  C3. For a positive exponent \<open>e\<close> the decoders should return the big-endian value
  times \<open>10 ^ e\<close>. With \<open>e = 1\<close> the scale factor of the code is \<open>10 XOR 1 = 11\<close>, and
  the raw value 10 decodes to 110 instead of 100, with \<^verbatim>\<open>Parse16\<close> and with
  \<^verbatim>\<open>Parse32\<close>.
\<close>

theorem positive_exponent_xor:
  "pow10 1 = 11 \<and> Parse16 [0x00, 0x0A] 1 = Some 110
   \<and> Parse32 [0x00, 0x00, 0x00, 0x0A] 1 = Some 110
   \<and> Parse16 [0x00, 0x0A] 1 \<noteq> Some (10 * 10 ^ 1)"
  by (simp add: pow10_small Parse16_ten Parse32_ten)

section \<open>The checksum\<close>

text \<open>
  Reading the 16-bit register as a natural number turns every step of \<^verbatim>\<open>CRC16\<close>
  into the step of the specification: the low bit is the parity, the shift is the
  division by 2, and XOR with a byte touches the low byte only.
\<close>

lemma odd_unat: "odd (unat w) \<longleftrightarrow> w AND 1 \<noteq> 0" for w :: "16 word"
proof -
  have "odd (unat w) \<longleftrightarrow> bit (unat w) 0" by (simp add: bit_0)
  also have "\<dots> \<longleftrightarrow> bit w 0" by (simp add: bit_unsigned_iff)
  also have "\<dots> \<longleftrightarrow> odd w" by (simp add: bit_0)
  also have "\<dots> \<longleftrightarrow> w AND 1 \<noteq> 0" using even_word_iff [of w] by (simp add: even_word_def)
  finally show ?thesis .
qed

lemma unat_shift_right: "unat (drop_bit n w) = unat w div 2 ^ n" for w :: "16 word"
proof -
  have "unat (drop_bit n w) = drop_bit n (unat w)" by (rule unat_drop_bit_eq)
  also have "\<dots> = unat w div 2 ^ n" by (rule drop_bit_eq_div)
  finally show ?thesis .
qed

lemma crc_bit_unat: "unat (crc_bit w) = spec_shift (unat w)"
  using unat_shift_right [of 1 w]
  by (simp add: crc_bit_def spec_shift_def odd_unat unsigned_xor_eq)

lemma crc_bits_unat: "unat (crc_bits n w) = (spec_shift ^^ n) (unat w)"
  by (induction n arbitrary: w) (simp_all add: crc_bit_unat funpow_swap1)

lemma xor_low_byte:
  fixes r c :: nat
  assumes "c < 256"
  shows "r XOR c = (r div 256) * 256 + ((r mod 256) XOR c)"
proof -
  have c0: "drop_bit 8 c = 0" using assms by (simp add: drop_bit_eq_div)
  have c1: "take_bit 8 c = c" using assms by (simp add: take_bit_eq_mod)
  have hi: "(r XOR c) div 256 = r div 256"
    using c0 drop_bit_xor [of 8 r c] by (simp add: drop_bit_eq_div)
  have lo: "(r XOR c) mod 256 = (r mod 256) XOR c"
    using c1 take_bit_xor [of 8 r c] by (simp add: take_bit_eq_mod)
  have "r XOR c = ((r XOR c) div 256) * 256 + (r XOR c) mod 256" by simp
  then show ?thesis by (simp only: hi lo)
qed

lemma unat_ucast_byte: "unat (ucast b :: 16 word) = unat b" for b :: byte
proof -
  have "unat b < 2 ^ 8" using unsigned_less [of b] by simp
  then have "unat b < 2 ^ 16" by simp
  then show ?thesis by (simp add: unsigned_ucast_eq take_bit_nat_eq_self)
qed

lemma crc_byte_unat: "unat (crc_byte w b) = spec_byte (unat w) (unat b)"
proof -
  have "unat b < 256" using unsigned_less [of b] by simp
  then have "unat w XOR unat b = (unat w div 256) * 256 + ((unat w mod 256) XOR unat b)"
    by (rule xor_low_byte)
  then show ?thesis
    by (simp add: crc_byte_def spec_byte_def crc_bits_unat unsigned_xor_eq unat_ucast_byte)
qed

lemma crc_fold_unat: "unat (foldl crc_byte w bs) = foldl spec_byte (unat w) (map unat bs)"
  by (induction bs arbitrary: w) (simp_all add: crc_byte_unat)

lemma unat_low_byte: "unat (ucast w :: byte) = unat w mod 256" for w :: "16 word"
  by (simp add: unsigned_ucast_eq take_bit_eq_mod)

lemma unat_high_byte: "unat (drop_bit 8 w) mod 256 = unat w div 256" for w :: "16 word"
proof -
  have "unat w < 2 ^ 16" using unsigned_less [of w] by simp
  then have "unat w div 256 < 256" by simp
  then show ?thesis by (simp only: unat_shift_right) simp
qed

lemma CRC16_length: "length (CRC16 data) = 2"
  by (simp add: CRC16_def Let_def)

text \<open>
  C4. For every byte sequence, \<^verbatim>\<open>CRC16\<close> is the bit-serial CRC16/MODBUS of the
  specification: register \<open>0xFFFF\<close>, each byte XORed into the low byte, eight times a
  right shift with XOR of \<open>0xA001\<close> when the low bit was set, and the result as two
  bytes, low byte first. It is a function of the bytes alone. The register of
  \<open>checksum_spec\<close> is an unbounded natural number: that it agrees with the 16-bit
  word of the code shows that it never leaves 16 bits.
\<close>

theorem CRC16_refines_spec:
  "map unat (CRC16 data) = checksum_spec (map unat data) \<and> length (CRC16 data) = 2"
proof -
  have "unat (foldl crc_byte 0xFFFF data) = foldl spec_byte 0xFFFF (map unat data)"
    using crc_fold_unat [of "0xFFFF" data] by simp
  then have "map unat (CRC16 data) = checksum_spec (map unat data)"
    by (simp only: CRC16_def checksum_spec_def Let_def unat_low_byte unat_high_byte list.map)
  then show ?thesis by (simp add: CRC16_length)
qed

section \<open>Big-endian fields\<close>

lemma or_push_bit_add:
  fixes x y :: int
  assumes "0 \<le> x" "x < 2 ^ n"
  shows "x OR push_bit n y = x + push_bit n y"
proof -
  have x: "take_bit n x = x" using assms by (simp add: take_bit_int_eq_self)
  have "take_bit n x AND push_bit n y = 0"
    by (rule bit_eqI) (auto simp: bit_simps)
  then have "x AND push_bit n y = 0" by (simp only: x)
  then show ?thesis by (simp add: disjunctive_add_eq_or)
qed

lemma uint_byte_less: "uint b < 256" for b :: byte
  using uint_lt2p [of b] by simp

lemma uint_ucast_byte: "uint (ucast b :: 16 word) = uint b" for b :: byte
proof -
  have "uint b < 2 ^ 16" using uint_byte_less [of b] by simp
  then show ?thesis by (simp add: unsigned_ucast_eq take_bit_int_eq_self)
qed

lemma uint_shifted_byte: "uint (push_bit 8 (ucast b) :: 16 word) = push_bit 8 (uint b)" for b :: byte
proof -
  have "uint b < 256" by (rule uint_byte_less)
  then have "push_bit 8 (uint b) < 2 ^ 16" by (simp add: push_bit_eq_mult)
  then show ?thesis
    by (simp add: unsigned_push_bit_eq uint_ucast_byte take_bit_int_eq_self)
qed

lemma raw16_bytes: "raw16 data off = 256 * uint (data ! off) + uint (data ! (off + 1))"
proof -
  have "raw16 data off = uint (data ! (off + 1)) OR push_bit 8 (uint (data ! off))"
    by (simp only: raw16_def unsigned_or_eq uint_ucast_byte uint_shifted_byte)
  also have "\<dots> = uint (data ! (off + 1)) + push_bit 8 (uint (data ! off))"
    using uint_byte_less [of "data ! (off + 1)"] by (intro or_push_bit_add) simp_all
  finally show ?thesis by (simp add: push_bit_eq_mult)
qed

section \<open>The frame parser on 149 bytes\<close>

lemma scaled_exp0:
  assumes "0 \<le> n" "n < 2 ^ 52"
  shows "scaled n 0 = of_int n"
proof -
  have n53: "n < 2 ^ 53" using assms(2) by simp
  have fl_n: "fl (of_int n) = of_int n" using assms(1) n53 by (rule fl_of_int)
  have fl_h: "fl (of_int n + 1 / 2) = of_int n + 1 / 2" using assms by (rule fl_half)
  have fl: "\<lfloor>(of_int n + 1 / 2 :: rat)\<rfloor> = n" by linarith
  have pos: "(0::rat) \<le> of_int n + 1 / 2" using assms(1) by simp
  show ?thesis
    using pos by (simp add: scaled_def round_f_def pow10_small fl_n fl_h int64_of_float_def fl)
qed

lemma int64_of_float_of_int: "int64_of_float (of_int n) = n"
  by (simp add: int64_of_float_def)

lemma raw16_range: "0 \<le> raw16 data off" "raw16 data off < 65536"
  using uint_bounded [of "ucast (data ! (off + 1)) OR push_bit 8 (ucast (data ! off)) :: 16 word"]
  by (simp_all add: raw16_def)

lemma raw32_range: "0 \<le> raw32 data off" "raw32 data off < 4294967296"
  using uint_bounded [of "ucast (data ! (off + 3)) OR push_bit 8 (ucast (data ! (off + 2)))
           OR push_bit 16 (ucast (data ! (off + 1))) OR push_bit 24 (ucast (data ! off)) :: 32 word"]
  by (simp_all add: raw32_def)

lemma scaled_raw16_0: "scaled (raw16 data off) 0 = of_int (raw16 data off)"
  using raw16_range [of data off] by (intro scaled_exp0) simp_all

lemma scaled_raw32_0: "scaled (raw32 data off) 0 = of_int (raw32 data off)"
  using raw32_range [of data off] by (intro scaled_exp0) simp_all

lemma scaled_zero: "scaled 0 (- 1) = 0" "scaled 0 (- 2) = 0" "scaled 0 0 = 0"
  by code_simp+

lemma raw16_take: "off + 2 \<le> n \<Longrightarrow> raw16 (take n data) off = raw16 data off"
  by (simp add: raw16_def)

lemma raw32_take: "off + 4 \<le> n \<Longrightarrow> raw32 (take n data) off = raw32 data off"
  by (simp add: raw32_def)

lemma raw16_append: "off + 2 \<le> length xs \<Longrightarrow> raw16 (xs @ ys) off = raw16 xs off"
  by (simp add: raw16_def nth_append)

lemma raw32_append: "off + 4 \<le> length xs \<Longrightarrow> raw32 (xs @ ys) off = raw32 xs off"
  by (simp add: raw32_def nth_append)

lemma decoded_take: "decoded now (take 101 data) = decoded now data"
  by (simp add: decoded_def ac_phase_def Let_def raw16_take raw32_take)

lemma decoded_append: "101 \<le> length xs \<Longrightarrow> decoded now (xs @ ys) = decoded now xs"
  by (simp add: decoded_def ac_phase_def Let_def raw16_append raw32_append)

lemma parsePayload_spare:
  assumes "101 \<le> length xs"
  shows "parsePayload now (xs @ ys) = parsePayload now xs"
proof -
  have l: "101 \<le> length (xs @ ys)" using assms by simp
  show ?thesis
    by (simp only: parsePayload_eq [OF assms] parsePayload_eq [OF l] decoded_append [OF assms])
qed

lemma raw16_upd100: "off + 1 < 100 \<Longrightarrow> raw16 (data[100 := b]) off = raw16 data off"
  by (simp add: raw16_def)

lemma raw32_upd100: "off + 3 < 100 \<Longrightarrow> raw32 (data[100 := b]) off = raw32 data off"
  by (simp add: raw32_def)

lemma decoded_WorkingHours:
  "WorkingHours (decoded now data) = of_int (256 * uint (data ! 99) + uint (data ! 100))"
proof -
  have "WorkingHours (decoded now data) = of_int (raw16 data 99)"
    by (simp add: decoded_def scaled_raw16_0)
  also have "raw16 data 99 = 256 * uint (data ! 99) + uint (data ! 100)"
    using raw16_bytes [of data 99] by simp
  finally show ?thesis .
qed

lemma decoded_upd100:
  assumes "101 \<le> length data"
  shows "decoded now (data[100 := b]) =
         (decoded now data)\<lparr>WorkingHours := of_int (256 * uint (data ! 99) + uint b)\<rparr>"
proof -
  have "raw16 (data[100 := b]) 99 = 256 * uint (data ! 99) + uint b"
    using assms by (simp add: raw16_bytes)
  moreover have "scaled (raw16 (data[100 := b]) 99) 0 = of_int (raw16 (data[100 := b]) 99)"
    by (rule scaled_raw16_0)
  ultimately have "scaled (raw16 (data[100 := b]) 99) 0 = of_int (256 * uint (data ! 99) + uint b)"
    by (simp only:)
  then show ?thesis
    by (simp add: decoded_def ac_phase_def Let_def raw16_upd100 raw32_upd100)
qed

text \<open>
  C9. On a payload of 149 bytes, whatever spare capacity lies behind it,
  \<^verbatim>\<open>parsePayload\<close> does not panic: it returns the snapshot or the validation error.
  The highest offset it reads is 100. Nothing beyond it is read: the bytes up to
  offset 100 followed by any other bytes give the same result, so bytes 101 to 148
  have no influence. And byte 100 is read: it is the low byte of the working hours
  of the snapshot, and overwriting it in an accepted payload changes the working
  hours accordingly and nothing else.
\<close>

theorem parsePayload_total:
  assumes "149 \<le> length data"
  shows "(parsePayload now data = Inr (decoded now data)
          \<or> parsePayload now data = Inl (Err ''unrealistic yield values''))
       \<and> parsePayload now (take 101 data @ rest) = parsePayload now data
       \<and> (parsePayload now data = Inr d \<longrightarrow>
            WorkingHours d = of_int (256 * uint (data ! 99) + uint (data ! 100))
          \<and> parsePayload now (data[100 := b]) =
              Inr (d\<lparr>WorkingHours := of_int (256 * uint (data ! 99) + uint b)\<rparr>))"
proof -
  have len: "101 \<le> length data" using assms by simp
  have len': "101 \<le> length (data[100 := b])" using assms by simp
  have l1: "101 \<le> length (take 101 data)" using assms by simp
  have l2: "101 \<le> length (take 101 data @ rest)" using assms by simp
  have "decoded now (take 101 data @ rest) = decoded now data"
    using l1 by (simp only: decoded_append decoded_take)
  then have "parsePayload now (take 101 data @ rest) = parsePayload now data"
    by (simp only: parsePayload_eq [OF len] parsePayload_eq [OF l2])
  moreover have "parsePayload now data = Inr (decoded now data)
          \<or> parsePayload now data = Inl (Err ''unrealistic yield values'')"
    by (simp add: parsePayload_eq [OF len])
  moreover have "parsePayload now data = Inr d \<longrightarrow>
            WorkingHours d = of_int (256 * uint (data ! 99) + uint (data ! 100))
          \<and> parsePayload now (data[100 := b]) =
              Inr (d\<lparr>WorkingHours := of_int (256 * uint (data ! 99) + uint b)\<rparr>)"
  proof
    assume acc: "parsePayload now data = Inr d"
    then have d: "d = decoded now data"
      and ok: "\<not> (YieldToday (decoded now data) > 6500 \<or> YieldTotal (decoded now data) > 4000000)"
      by (auto simp add: parsePayload_eq [OF len] split: if_splits)
    have "WorkingHours d = of_int (256 * uint (data ! 99) + uint (data ! 100))"
      by (simp only: d decoded_WorkingHours)
    moreover have "parsePayload now (data[100 := b]) =
        Inr (d\<lparr>WorkingHours := of_int (256 * uint (data ! 99) + uint b)\<rparr>)"
      using ok by (simp add: parsePayload_eq [OF len'] decoded_upd100 [OF len] d)
    ultimately show "WorkingHours d = of_int (256 * uint (data ! 99) + uint (data ! 100))
          \<and> parsePayload now (data[100 := b]) =
              Inr (d\<lparr>WorkingHours := of_int (256 * uint (data ! 99) + uint b)\<rparr>)"
      by simp
  qed
  ultimately show ?thesis by simp
qed

lemma zeros_raw16: "off + 2 \<le> n \<Longrightarrow> raw16 (replicate n 0) off = 0"
  by (simp add: raw16_def)

lemma zeros_raw32: "off + 4 \<le> n \<Longrightarrow> raw32 (replicate n 0) off = 0"
  by (simp add: raw32_def)

lemma zeros_accepted: "parsePayload now (replicate 149 0) = Inr (decoded now (replicate 149 0))"
  by (simp add: parsePayload_eq decoded_def zeros_raw16 zeros_raw32 scaled_zero)

theorem parsePayload_total_witness:
  "149 \<le> length (replicate 149 (0::byte))
   \<and> parsePayload 0 (replicate 149 0) = Inr (decoded 0 (replicate 149 0))
   \<and> parsePayload 0 (take 101 (replicate 149 0) @ [0xFF, 0xFF]) = parsePayload 0 (replicate 149 0)
   \<and> WorkingHours (decoded 0 (replicate 149 0)) = 0
   \<and> parsePayload 0 ((replicate 149 0)[100 := 0xFF]) =
       Inr ((decoded 0 (replicate 149 0))\<lparr>WorkingHours := 255\<rparr>)"
  using parsePayload_total [of "replicate 149 0" 0 "[0xFF, 0xFF]" "decoded 0 (replicate 149 0)" "0xFF"]
    zeros_accepted [of 0]
  by simp

lemma raw16_upd:
  "off + 1 < 61 \<or> 62 < off \<Longrightarrow> raw16 (data[61 := b0, 62 := b1]) off = raw16 data off"
  by (auto simp: raw16_def)

lemma raw32_upd:
  "off + 3 < 61 \<or> 62 < off \<Longrightarrow> raw32 (data[61 := b0, 62 := b1]) off = raw32 data off"
  by (auto simp: raw32_def)

lemma status_raw: "int64_of_float (scaled (raw16 data off) 0) = raw16 data off"
  by (simp add: scaled_raw16_0 int64_of_float_of_int)

lemma decoded_Status: "Status (decoded now data) = 256 * uint (data ! 61) + uint (data ! 62)"
proof -
  have "Status (decoded now data) = raw16 data 61" by (simp add: decoded_def status_raw)
  also have "\<dots> = 256 * uint (data ! 61) + uint (data ! 62)"
    using raw16_bytes [of data 61] by simp
  finally show ?thesis .
qed

lemma decoded_upd:
  assumes "63 \<le> length data"
  shows "decoded now (data[61 := b0, 62 := b1]) =
         (decoded now data)\<lparr>Status := 256 * uint b0 + uint b1\<rparr>"
proof -
  have "raw16 (data[61 := b0, 62 := b1]) 61 = 256 * uint b0 + uint b1"
    using assms by (simp add: raw16_bytes)
  moreover have "int64_of_float (scaled (raw16 (data[61 := b0, 62 := b1]) 61) 0)
      = raw16 (data[61 := b0, 62 := b1]) 61"
    by (rule status_raw)
  ultimately have "int64_of_float (scaled (raw16 (data[61 := b0, 62 := b1]) 61) 0)
      = 256 * uint b0 + uint b1"
    by (simp only:)
  then show ?thesis
    by (simp add: decoded_def ac_phase_def Let_def raw16_upd raw32_upd)
qed

text \<open>
  C8. The status of an accepted payload of 149 bytes (with any spare capacity
  behind them) is the raw big-endian 16-bit integer at
  offset 61, whatever its value, and the status field never decides acceptance:
  overwriting bytes 61 and 62 of an accepted payload with any two bytes gives an
  accepted payload whose snapshot differs in the status only.
\<close>

theorem status_preserved:
  assumes "149 \<le> length data" and "parsePayload now data = Inr d"
  shows "Status d = 256 * uint (data ! 61) + uint (data ! 62)
       \<and> parsePayload now (data[61 := b0, 62 := b1]) = Inr (d\<lparr>Status := 256 * uint b0 + uint b1\<rparr>)"
proof -
  have len: "101 \<le> length data" using assms(1) by simp
  have len': "101 \<le> length (data[61 := b0, 62 := b1])" using assms(1) by simp
  have len63: "63 \<le> length data" using assms(1) by simp
  from assms(2) have d: "d = decoded now data"
    and ok: "\<not> (YieldToday (decoded now data) > 6500 \<or> YieldTotal (decoded now data) > 4000000)"
    by (auto simp add: parsePayload_eq [OF len] split: if_splits)
  have "Status d = 256 * uint (data ! 61) + uint (data ! 62)"
    by (simp only: d decoded_Status)
  moreover have "parsePayload now (data[61 := b0, 62 := b1]) =
      Inr (d\<lparr>Status := 256 * uint b0 + uint b1\<rparr>)"
    using ok by (simp add: parsePayload_eq [OF len'] decoded_upd [OF len63] d)
  ultimately show ?thesis by simp
qed

lemma status_payload_accepted:
  "parsePayload now status_payload = Inr (decoded now status_payload)"
proof -
  have y: "raw16 status_payload 91 = 0" "raw32 status_payload 93 = 0"
    unfolding status_payload_def by (simp_all add: raw16_upd raw32_upd zeros_raw16 zeros_raw32)
  have "101 \<le> length status_payload" by (simp add: status_payload_def)
  then show ?thesis
    by (simp add: parsePayload_eq decoded_def y scaled_zero)
qed

theorem status_preserved_witness:
  "length status_payload = 149
   \<and> parsePayload 0 status_payload = Inr (decoded 0 status_payload)
   \<and> Status (decoded 0 status_payload) = 4660
   \<and> parsePayload 0 (status_payload[61 := 0xFF, 62 := 0xFF]) =
       Inr ((decoded 0 status_payload)\<lparr>Status := 65535\<rparr>)"
proof -
  have len: "length status_payload = 149" by (simp add: status_payload_def)
  then have cap: "149 \<le> length status_payload" by simp
  have nth: "status_payload ! 61 = 0x12" "status_payload ! 62 = 0x34"
    by (simp_all add: status_payload_def)
  show ?thesis
    using status_preserved [OF cap status_payload_accepted, of 0 "0xFF" "0xFF"]
    by (simp add: len nth status_payload_accepted)
qed

section \<open>The decoder on all raw values\<close>

text \<open>
  The decoder is monotone in the raw integer, so what it does on all raw values
  follows from its values at a few of them.
\<close>

lemma int64_of_float_mono: "0 \<le> f \<Longrightarrow> f \<le> g \<Longrightarrow> int64_of_float f \<le> int64_of_float g"
  by (simp add: int64_of_float_def floor_mono)

lemma int64_of_float_nonneg: "0 \<le> f \<Longrightarrow> 0 \<le> int64_of_float f"
  by (simp add: int64_of_float_def)

lemma round_f_mono:
  assumes "0 \<le> f" "f \<le> g" "0 < pow10 p"
  shows "round_f f p \<le> round_f g p"
proof -
  define s where "s = pow10 p"
  have s: "0 < s" using assms(3) by (simp add: s_def)
  have a0: "0 \<le> f * s" using assms(1) s by simp
  have "f * s \<le> g * s" using assms(2) s by (intro mult_right_mono) simp_all
  with a0 have a: "fl (f * s) \<le> fl (g * s)" by (rule fl_mono)
  have a1: "0 \<le> fl (f * s)" using a0 by (rule fl_nonneg)
  have b0: "0 \<le> fl (f * s) + 1 / 2" using a1 by simp
  have "fl (f * s) + 1 / 2 \<le> fl (g * s) + 1 / 2" using a by simp
  with b0 have b: "fl (fl (f * s) + 1 / 2) \<le> fl (fl (g * s) + 1 / 2)" by (rule fl_mono)
  have b1: "0 \<le> fl (fl (f * s) + 1 / 2)" using b0 by (rule fl_nonneg)
  have k: "int64_of_float (fl (fl (f * s) + 1 / 2)) \<le> int64_of_float (fl (fl (g * s) + 1 / 2))"
    using b1 b by (rule int64_of_float_mono)
  have k0: "0 \<le> int64_of_float (fl (fl (f * s) + 1 / 2))" using b1 by (rule int64_of_float_nonneg)
  have c: "fl (of_int (int64_of_float (fl (fl (f * s) + 1 / 2))))
         \<le> fl (of_int (int64_of_float (fl (fl (g * s) + 1 / 2))))"
    using k0 k by (intro fl_mono) (simp_all only: of_int_0_le_iff of_int_le_iff)
  have c0: "0 \<le> fl (of_int (int64_of_float (fl (fl (f * s) + 1 / 2))))"
    using k0 by (intro fl_nonneg) simp
  have d: "fl (of_int (int64_of_float (fl (fl (f * s) + 1 / 2)))) / s
      \<le> fl (of_int (int64_of_float (fl (fl (g * s) + 1 / 2)))) / s"
    using c s by (intro divide_right_mono) simp_all
  have d0: "0 \<le> fl (of_int (int64_of_float (fl (fl (f * s) + 1 / 2)))) / s"
    using c0 s by simp
  have "fl (fl (of_int (int64_of_float (fl (fl (f * s) + 1 / 2)))) / s)
      \<le> fl (fl (of_int (int64_of_float (fl (fl (g * s) + 1 / 2)))) / s)"
    using d0 d by (rule fl_mono)
  then show ?thesis by (simp add: round_f_def s_def Let_def)
qed

lemma scaled_mono:
  assumes "0 \<le> m" "m \<le> n" "0 \<le> pow10 ex" "0 < pow10 (- ex)"
  shows "scaled m ex \<le> scaled n ex"
proof -
  have a: "fl (of_int m) \<le> fl (of_int n)"
    using assms(1,2) by (intro fl_mono) (simp_all only: of_int_0_le_iff of_int_le_iff)
  have a0: "0 \<le> fl (of_int m)" using assms(1) by (intro fl_nonneg) simp
  have b0: "0 \<le> fl (of_int m) * pow10 ex" using a0 assms(3) by simp
  have "fl (of_int m) * pow10 ex \<le> fl (of_int n) * pow10 ex"
    using a assms(3) by (rule mult_right_mono)
  with b0 have b: "fl (fl (of_int m) * pow10 ex) \<le> fl (fl (of_int n) * pow10 ex)"
    by (rule fl_mono)
  have "0 \<le> fl (fl (of_int m) * pow10 ex)" using b0 by (rule fl_nonneg)
  then show ?thesis using b assms(4) by (simp only: scaled_def round_f_mono)
qed

lemma scaled_tenths_mono: "0 \<le> m \<Longrightarrow> m \<le> n \<Longrightarrow> scaled m (- 1) \<le> scaled n (- 1)"
  by (rule scaled_mono) (simp_all add: pow10_neg pow10_small)

lemma scaled_yield_ends: "scaled 65000 (- 1) = 6500" "6500 < scaled 65001 (- 1)"
  by code_simp+

lemma scaled_sentinel_ends:
  "scaled 65534 (- 1) < 6553.5" "scaled 65535 (- 1) = 7205699430431279 / 1099511627776"
  by code_simp+

lemma yield_threshold:
  assumes "0 \<le> n"
  shows "6500 < scaled n (- 1) \<longleftrightarrow> 65000 < n"
proof
  assume h: "6500 < scaled n (- 1)"
  show "65000 < n"
  proof (rule ccontr)
    assume "\<not> 65000 < n"
    then have "scaled n (- 1) \<le> scaled 65000 (- 1)" using assms by (intro scaled_tenths_mono) simp_all
    with h show False by (simp add: scaled_yield_ends)
  qed
next
  assume "65000 < n"
  then have "scaled 65001 (- 1) \<le> scaled n (- 1)" by (intro scaled_tenths_mono) simp_all
  then show "6500 < scaled n (- 1)" using scaled_yield_ends(2) by simp
qed

lemma sentinel_never:
  assumes "0 \<le> n"
  shows "scaled n (- 1) \<noteq> 6553.5"
proof (cases "n \<le> 65534")
  case True
  then have "scaled n (- 1) \<le> scaled 65534 (- 1)" using assms by (intro scaled_tenths_mono) simp_all
  then show ?thesis using scaled_sentinel_ends(1) by simp
next
  case False
  then have "scaled 65535 (- 1) \<le> scaled n (- 1)" by (intro scaled_tenths_mono) simp_all
  then show ?thesis by (simp add: scaled_sentinel_ends(2))
qed

lemma ac_phase_plain:
  "ac_phase data i = (scaled (raw16 data (39 + i * 2)) (- 1),
                      scaled (raw16 data (45 + i * 2)) (- 1),
                      scaled (raw16 data (51 + i * 2)) (- 2))"
  using sentinel_never [OF raw16_range(1), of data "39 + i * 2"]
  by (simp add: ac_phase_def Let_def)

lemma sentinel_payload_raw16:
  "raw16 sentinel_payload 41 = 65535"
  "off + 1 < 41 \<or> 42 < off \<Longrightarrow> off + 2 \<le> 149 \<Longrightarrow> raw16 sentinel_payload off = 0"
  by (auto simp add: raw16_def sentinel_payload_def)

lemma sentinel_payload_raw32: "raw32 sentinel_payload 93 = 0"
  by (simp add: raw32_def sentinel_payload_def)

lemma fl_zero: "fl 0 = 0"
  by (simp add: fl_def)

text \<open>
  C2. For an AC phase with index above 0 whose voltage field holds the raw value
  \<open>FFFF\<close>, voltage, current and frequency of the snapshot should be 0. The code
  compares the decoded voltage with 6553.5, but \<^verbatim>\<open>Parse16\<close> decodes \<open>FFFF\<close> to the
  float64 nearest to \<open>72089 / 11\<close>, about 6553.545 (lemma \<open>sentinel_never\<close>: no raw
  value at all decodes to 6553.5), so the phase is not zeroed: the payload of zeros
  with \<open>FF FF\<close> at offset 41 is accepted with that voltage for phase 1.
\<close>

theorem sentinel_not_suppressed:
  "length sentinel_payload = 149
   \<and> parsePayload 0 sentinel_payload =
     Inr \<lparr>Sample = 0, VoltageDC = [0, 0, 0, 0], CurrentDC = [0, 0, 0, 0],
          PowerDC = [0, 0, 0, 0],
          VoltageAC = [0, 7205699430431279 / 1099511627776, 0],
          CurrentAC = [0, 0, 0], FrequencyAC = [0, 0, 0], PowerAC = 0,
          Status = 0, Temperature = 0, YieldToday = 0, YieldTotal = 0,
          WorkingHours = 0\<rparr>"
proof -
  have len: "length sentinel_payload = 149" by (simp add: sentinel_payload_def)
  then have "101 \<le> length sentinel_payload" by simp
  then show ?thesis
    by (simp add: len parsePayload_eq decoded_def ac_phase_plain sentinel_payload_raw16
        sentinel_payload_raw32 scaled_zero scaled_sentinel_ends fl_zero int64_of_float_def)
qed

section \<open>The plausibility test\<close>

text \<open>
  C5. The decoded yields are what \<^verbatim>\<open>Parse16\<close> and \<^verbatim>\<open>Parse32\<close> make of the fields at
  offsets 91 and 93; the total yield is the raw 32-bit integer. A payload of 149
  bytes (with any spare capacity behind them) is rejected with the validation error exactly when the decoded yield of
  today exceeds 6500 or the total yield exceeds 4000000, and accepted otherwise:
  4000001 is rejected, 4000000 with a plausible yield of today is accepted. The
  decoded yield of today exceeds 6500 exactly when its raw value exceeds 65000.
\<close>

theorem plausibility_boundary:
  assumes "149 \<le> length data"
  shows "field16 data 91 (- 1) = Some (YieldToday (decoded now data))
       \<and> field32 data 93 0 = Some (YieldTotal (decoded now data))
       \<and> YieldTotal (decoded now data) = of_int (raw32 data 93)
       \<and> (6500 < YieldToday (decoded now data)) = (65000 < raw16 data 91)
       \<and> parsePayload now data =
          (if 6500 < YieldToday (decoded now data) \<or> 4000000 < raw32 data 93
           then Inl (Err ''unrealistic yield values'') else Inr (decoded now data))"
proof -
  have len: "101 \<le> length data" using assms by simp
  have yt: "YieldTotal (decoded now data) = of_int (raw32 data 93)"
    by (simp add: decoded_def scaled_raw32_0)
  have "field16 data 91 (- 1) = Some (YieldToday (decoded now data))"
    using assms by (simp add: field16_eq decoded_def)
  moreover have "field32 data 93 0 = Some (YieldTotal (decoded now data))"
    using assms by (simp add: field32_eq decoded_def)
  moreover have "parsePayload now data =
          (if 6500 < YieldToday (decoded now data) \<or> 4000000 < raw32 data 93
           then Inl (Err ''unrealistic yield values'') else Inr (decoded now data))"
    by (simp add: parsePayload_eq [OF len] yt)
  moreover have "(6500 < YieldToday (decoded now data)) = (65000 < raw16 data 91)"
    using yield_threshold [OF raw16_range(1), of data 91] by (simp add: decoded_def)
  ultimately show ?thesis using yt by simp
qed

lemma yield_payload_raw16: "raw16 (yield_payload b) 91 = 0"
  by (simp add: yield_payload_def raw16_def)

lemma yield_payload_raw32: "raw32 (yield_payload 0) 93 = 4000000" "raw32 (yield_payload 1) 93 = 4000001"
  by (simp_all add: yield_payload_def raw32_def)

lemma yield_payload_today: "YieldToday (decoded now (yield_payload b)) = 0"
  by (simp add: decoded_def yield_payload_raw16 scaled_zero)

theorem plausibility_boundary_witness:
  "length (yield_payload 0) = 149 \<and> length (yield_payload 1) = 149
   \<and> YieldTotal (decoded 0 (yield_payload 0)) = 4000000
   \<and> parsePayload 0 (yield_payload 0) = Inr (decoded 0 (yield_payload 0))
   \<and> YieldTotal (decoded 0 (yield_payload 1)) = 4000001
   \<and> parsePayload 0 (yield_payload 1) = Inl (Err ''unrealistic yield values'')"
proof -
  have len: "length (yield_payload 0) = 149" "length (yield_payload 1) = 149"
    by (simp_all add: yield_payload_def)
  then have cap: "149 \<le> length (yield_payload 0)" "149 \<le> length (yield_payload 1)"
    by simp_all
  show ?thesis
    using plausibility_boundary [OF cap(1), of 0] plausibility_boundary [OF cap(2), of 0]
    by (simp add: len yield_payload_raw32 yield_payload_today)
qed

section \<open>The exchange and the retry loop\<close>

lemma rbuf_length: "length (rbuf io) = 153"
  by (simp add: rbuf_def)

lemma read_n_153: "read_n io = 153 \<longleftrightarrow> 153 \<le> length (datagram io)"
  by (auto simp add: read_n_def min_def)

lemma parsePayload_no_panic: "101 \<le> length data \<Longrightarrow> parsePayload now data \<noteq> Inl Panic"
  by (simp add: parsePayload_eq)

text \<open>The two bytes of spare capacity behind the payload have no influence.\<close>

lemma payload_cap: "parsePayload now (upto_cap (rbuf io) 2) = parsePayload now (take 149 (drop 2 (rbuf io)))"
proof -
  have "parsePayload now (take 149 (drop 2 (rbuf io)) @ drop 149 (drop 2 (rbuf io)))
      = parsePayload now (take 149 (drop 2 (rbuf io)))"
    by (rule parsePayload_spare) (simp add: rbuf_length)
  then show ?thesis by (simp only: upto_cap_def append_take_drop_id)
qed

lemma getData_eq:
  assumes "dial_err io = None" "deadline_err io = None" "write_err io = None"
  shows "fst (getData io) =
    (if read_err io \<noteq> None \<or> read_n io \<noteq> 153 then Inl (BadResponseSize (read_n io))
     else if take 2 (rbuf io) \<noteq> [0xAA, 0x55] then Inl (InvalidHeader (take 2 (rbuf io)))
     else if CRC16 (take 149 (drop 2 (rbuf io))) \<noteq> drop 151 (rbuf io)
       then Inl (Err ''CRC mismatch'')
     else parsePayload (clock io) (take 149 (drop 2 (rbuf io))))"
  using assms by (simp add: getData_def Let_def subslice_def rbuf_length payload_cap)

lemma getData_socket_error:
  assumes "dial_err io \<noteq> None \<or> deadline_err io \<noteq> None \<or> write_err io \<noteq> None"
  shows "isl (fst (getData io))"
  using assms by (auto simp add: getData_def Let_def split: option.splits)

lemma getData_no_panic: "fst (getData io) \<noteq> Inl Panic"
proof (cases "dial_err io = None \<and> deadline_err io = None \<and> write_err io = None")
  case True
  then show ?thesis by (simp add: getData_eq parsePayload_no_panic rbuf_length)
next
  case False
  then show ?thesis by (auto simp add: getData_def Let_def split: option.splits)
qed

lemma getData_trace: "attempts (snd (getData io)) = 1" "sleeps (snd (getData io)) = 0"
  by (auto simp add: getData_def Let_def attempts_def sleeps_def split: option.splits)

text \<open>
  What the three tests of \<^verbatim>\<open>getData\<close> do ensure: a snapshot comes from a datagram of
  at least 153 bytes whose first 153 bytes have the header \<open>AA 55\<close> and a matching
  checksum, and it is the snapshot of bytes 2 to 150; a datagram of fewer than 153
  bytes, a wrong header or a wrong checksum gives an error.
\<close>

lemma getData_checks:
  "(fst (getData io) = Inr d \<longrightarrow>
      read_err io = None \<and> 153 \<le> length (datagram io)
      \<and> take 2 (rbuf io) = [0xAA, 0x55]
      \<and> CRC16 (take 149 (drop 2 (rbuf io))) = drop 151 (rbuf io)
      \<and> parsePayload (clock io) (take 149 (drop 2 (rbuf io))) = Inr d)
   \<and> (length (datagram io) < 153 \<or> take 2 (rbuf io) \<noteq> [0xAA, 0x55]
        \<or> CRC16 (take 149 (drop 2 (rbuf io))) \<noteq> drop 151 (rbuf io) \<longrightarrow>
      isl (fst (getData io)))"
proof (cases "dial_err io = None \<and> deadline_err io = None \<and> write_err io = None")
  case True
  then show ?thesis
    using read_n_153 [of io] by (auto simp add: getData_eq split: if_splits)
next
  case False
  then have "isl (fst (getData io))" by (intro getData_socket_error) simp
  then show ?thesis by (auto simp: isl_def)
qed

lemma good_rbuf: "rbuf good_io = [0xAA, 0x55] @ replicate 149 0 @ CRC16 (replicate 149 0)"
  by (simp add: rbuf_def good_io_def CRC16_length)

lemma good_io_result: "fst (getData good_io) = Inr (decoded 0 (replicate 149 0))"
proof -
  have "dial_err good_io = None" "deadline_err good_io = None" "write_err good_io = None"
    "read_err good_io = None" "read_n good_io = 153" "clock good_io = 0"
    by (simp_all add: good_io_def read_n_def CRC16_length)
  then show ?thesis
    by (simp add: getData_eq good_rbuf zeros_accepted)
qed

lemma long_rbuf: "rbuf long_io = rbuf good_io"
  by (simp add: rbuf_def long_io_def good_io_def CRC16_length)

lemma long_io_result: "fst (getData long_io) = Inr (decoded 0 (replicate 149 0))"
proof -
  have "dial_err long_io = None" "deadline_err long_io = None" "write_err long_io = None"
    "read_err long_io = None" "read_n long_io = 153" "clock long_io = 0"
    by (simp_all add: long_io_def good_io_def read_n_def CRC16_length)
  then show ?thesis
    by (simp add: getData_eq long_rbuf good_rbuf zeros_accepted)
qed

lemma decoded_zeros:
  "decoded now (replicate 149 0) =
     \<lparr>Sample = now, VoltageDC = [0, 0, 0, 0], CurrentDC = [0, 0, 0, 0],
      PowerDC = [0, 0, 0, 0], VoltageAC = [0, 0, 0], CurrentAC = [0, 0, 0],
      FrequencyAC = [0, 0, 0], PowerAC = 0, Status = 0, Temperature = 0,
      YieldToday = 0, YieldTotal = 0, WorkingHours = 0\<rparr>"
  by (simp add: decoded_def ac_phase_plain zeros_raw16 zeros_raw32 scaled_zero fl_zero
      int64_of_float_def)

text \<open>
  C7. A payload should reach the frame parser only if the received datagram is
  exactly 153 bytes long (with the header \<open>AA 55\<close> and a matching CRC16). The code
  reads into a buffer of 153 bytes and compares the count of bytes read with 153
  ("bad response size: got %d, want 153"), so a longer datagram is cut to its first
  153 bytes and passes the test: the datagram of 154 bytes that consists of \<open>AA 55\<close>,
  149 zero bytes, their CRC16 and one more byte is accepted, and the exchange
  returns the snapshot of the payload of zeros.
\<close>

theorem long_datagram_accepted:
  "length (datagram long_io) = 154
   \<and> datagram long_io = [0xAA, 0x55] @ replicate 149 0 @ CRC16 (replicate 149 0) @ [0x00]
   \<and> read_n long_io = 153
   \<and> fst (getData long_io) =
       Inr \<lparr>Sample = 0, VoltageDC = [0, 0, 0, 0], CurrentDC = [0, 0, 0, 0],
            PowerDC = [0, 0, 0, 0], VoltageAC = [0, 0, 0], CurrentAC = [0, 0, 0],
            FrequencyAC = [0, 0, 0], PowerAC = 0, Status = 0, Temperature = 0,
            YieldToday = 0, YieldTotal = 0, WorkingHours = 0\<rparr>"
  by (simp add: long_io_result decoded_zeros)
    (simp add: long_io_def good_io_def read_n_def CRC16_length)

text \<open>In short: the datagram is not 153 bytes long, and the exchange does not fail.\<close>

theorem long_datagram_accepted_witness:
  "length (datagram long_io) \<noteq> 153 \<and> \<not> isl (fst (getData long_io))"
proof -
  have a: "length (datagram long_io) = 154"
    using long_datagram_accepted by (rule conjunct1)
  have b: "\<exists>d. fst (getData long_io) = Inr d"
    using long_datagram_accepted by blast
  show ?thesis using a b by auto
qed

lemma attempts_append: "attempts (a @ b) = attempts a + attempts b"
  by (simp add: attempts_def)

lemma sleeps_append: "sleeps (a @ b) = sleeps a + sleeps b"
  by (simp add: sleeps_def)

lemma attempts_Sleep: "attempts [Sleep] = 0" "sleeps [Sleep] = 1" "attempts [] = 0" "sleeps [] = 0"
  by (simp_all add: attempts_def sleeps_def)

lemma loop_exit: "\<not> i < retries \<Longrightarrow>
  GetData_loop net retries i tr = (Inl (Err ''failed to get data after retries''), tr)"
  by (simp add: GetData_loop.simps)

lemma loop_fail:
  assumes "i < retries" "fst (getData (net (nat i))) = Inl e"
  shows "GetData_loop net retries i tr =
     GetData_loop net retries (i + 1)
       (tr @ snd (getData (net (nat i))) @ (if i < retries - 1 then [Sleep] else []))"
proof -
  have "e \<noteq> Panic" using assms(2) getData_no_panic [of "net (nat i)"] by auto
  then show ?thesis
    using assms by (subst GetData_loop.simps) (simp add: case_prod_beta)
qed

lemma loop_success:
  assumes "i < retries" "fst (getData (net (nat i))) = Inr d"
  shows "GetData_loop net retries i tr = (Inr d, tr @ snd (getData (net (nat i))))"
  using assms by (subst GetData_loop.simps) (simp add: case_prod_beta)

lemma loop_all_fail:
  assumes "0 \<le> i" "i \<le> retries"
    and "\<forall>k. nat i \<le> k \<and> k < nat retries \<longrightarrow> isl (fst (getData (net k)))"
  shows "fst (GetData_loop net retries i tr) = Inl (Err ''failed to get data after retries'')
       \<and> attempts (snd (GetData_loop net retries i tr)) = attempts tr + nat (retries - i)
       \<and> sleeps (snd (GetData_loop net retries i tr)) = sleeps tr + nat (retries - 1 - i)"
  using assms
proof (induction "nat (retries - i)" arbitrary: i tr)
  case 0
  then have "\<not> i < retries" by simp
  then show ?case using 0 by (simp add: loop_exit)
next
  case (Suc n)
  then have lt: "i < retries" by simp
  have "isl (fst (getData (net (nat i))))" using Suc.prems lt by simp
  then obtain e where e: "fst (getData (net (nat i))) = Inl e" by (auto simp: isl_def)
  let ?tr = "tr @ snd (getData (net (nat i))) @ (if i < retries - 1 then [Sleep] else [])"
  have step: "GetData_loop net retries i tr = GetData_loop net retries (i + 1) ?tr"
    using lt e by (rule loop_fail)
  have n: "n = nat (retries - (i + 1))" using Suc.hyps(2) by simp
  have rest: "\<forall>k. nat (i + 1) \<le> k \<and> k < nat retries \<longrightarrow> isl (fst (getData (net k)))"
    using Suc.prems(3) Suc.prems(1) by (auto simp: nat_add_distrib)
  have IH: "fst (GetData_loop net retries (i + 1) ?tr) = Inl (Err ''failed to get data after retries'')
       \<and> attempts (snd (GetData_loop net retries (i + 1) ?tr)) = attempts ?tr + nat (retries - (i + 1))
       \<and> sleeps (snd (GetData_loop net retries (i + 1) ?tr)) = sleeps ?tr + nat (retries - 1 - (i + 1))"
    using Suc.prems(1) lt rest by (intro Suc.hyps(1) [OF n]) simp_all
  show ?case
    using IH lt
    by (simp only: step) (auto simp add: attempts_append sleeps_append getData_trace attempts_Sleep)
qed

lemma loop_first_success:
  assumes "0 \<le> i" "nat i \<le> k" "k < nat retries"
    and "\<forall>j. nat i \<le> j \<and> j < k \<longrightarrow> isl (fst (getData (net j)))"
    and "fst (getData (net k)) = Inr d"
  shows "fst (GetData_loop net retries i tr) = Inr d
       \<and> attempts (snd (GetData_loop net retries i tr)) = attempts tr + (k + 1 - nat i)
       \<and> sleeps (snd (GetData_loop net retries i tr)) = sleeps tr + (k - nat i)"
  using assms
proof (induction "k - nat i" arbitrary: i tr)
  case 0
  then have k: "nat i = k" by simp
  then have lt: "i < retries" using "0.prems" by linarith
  have "fst (getData (net (nat i))) = Inr d" using "0.prems"(5) k by simp
  then have "GetData_loop net retries i tr = (Inr d, tr @ snd (getData (net (nat i))))"
    using lt by (intro loop_success) simp_all
  then show ?case using k by (simp add: attempts_append sleeps_append getData_trace)
next
  case (Suc n)
  then have ik: "nat i < k" by simp
  then have lt: "i < retries - 1" using Suc.prems by linarith
  then have lt': "i < retries" by simp
  have "isl (fst (getData (net (nat i))))" using Suc.prems(4) ik by simp
  then obtain e where e: "fst (getData (net (nat i))) = Inl e" by (auto simp: isl_def)
  let ?tr = "tr @ snd (getData (net (nat i))) @ (if i < retries - 1 then [Sleep] else [])"
  have step: "GetData_loop net retries i tr = GetData_loop net retries (i + 1) ?tr"
    using lt' e by (rule loop_fail)
  have n: "n = k - nat (i + 1)" using Suc.hyps(2) Suc.prems(1) by (simp add: nat_add_distrib)
  have i1: "nat (i + 1) \<le> k" using ik Suc.prems(1) by (simp add: nat_add_distrib)
  have rest: "\<forall>j. nat (i + 1) \<le> j \<and> j < k \<longrightarrow> isl (fst (getData (net j)))"
    using Suc.prems(4) Suc.prems(1) by (auto simp: nat_add_distrib)
  have IH: "fst (GetData_loop net retries (i + 1) ?tr) = Inr d
       \<and> attempts (snd (GetData_loop net retries (i + 1) ?tr)) = attempts ?tr + (k + 1 - nat (i + 1))
       \<and> sleeps (snd (GetData_loop net retries (i + 1) ?tr)) = sleeps ?tr + (k - nat (i + 1))"
    using Suc.prems(1) i1 Suc.prems(3) rest Suc.prems(5)
    by (intro Suc.hyps(1) [OF n]) simp_all
  show ?case
    using IH lt ik Suc.prems(1)
    by (simp only: step)
      (auto simp add: attempts_append sleeps_append getData_trace attempts_Sleep nat_add_distrib;
        arith)
qed

text \<open>
  C6. With \<open>retries \<ge> 1\<close>: if every exchange fails, \<^verbatim>\<open>GetData\<close> makes exactly
  \<open>retries\<close> attempts, waits between them only (\<open>retries - 1\<close> times), and returns the
  error "failed to get data after retries"; if attempt \<open>k\<close> is the first that
  succeeds, its snapshot is returned after \<open>k + 1\<close> attempts and \<open>k\<close> waits, and no
  later attempt is made.
\<close>

theorem GetData_retry_policy:
  assumes "1 \<le> retries"
  shows "((\<forall>k < nat retries. isl (fst (getData (net k)))) \<longrightarrow>
            fst (GetData net retries) = Inl (Err ''failed to get data after retries'')
          \<and> attempts (snd (GetData net retries)) = nat retries
          \<and> sleeps (snd (GetData net retries)) = nat retries - 1)
       \<and> (k < nat retries \<and> (\<forall>j < k. isl (fst (getData (net j))))
            \<and> fst (getData (net k)) = Inr d \<longrightarrow>
            fst (GetData net retries) = Inr d
          \<and> attempts (snd (GetData net retries)) = k + 1
          \<and> sleeps (snd (GetData net retries)) = k)"
proof (intro conjI impI)
  assume all: "\<forall>k < nat retries. isl (fst (getData (net k)))"
  have *: "fst (GetData_loop net retries 0 []) = Inl (Err ''failed to get data after retries'')
       \<and> attempts (snd (GetData_loop net retries 0 [])) = attempts [] + nat (retries - 0)
       \<and> sleeps (snd (GetData_loop net retries 0 [])) = sleeps [] + nat (retries - 1 - 0)"
    using assms all by (intro loop_all_fail) simp_all
  show "fst (GetData net retries) = Inl (Err ''failed to get data after retries'')"
    using * by (simp add: GetData_def)
  show "attempts (snd (GetData net retries)) = nat retries"
    using * by (simp add: GetData_def attempts_Sleep)
  show "sleeps (snd (GetData net retries)) = nat retries - 1"
    using * assms by (simp add: GetData_def attempts_Sleep nat_diff_distrib)
next
  assume h: "k < nat retries \<and> (\<forall>j < k. isl (fst (getData (net j))))
            \<and> fst (getData (net k)) = Inr d"
  have *: "fst (GetData_loop net retries 0 []) = Inr d
       \<and> attempts (snd (GetData_loop net retries 0 [])) = attempts [] + (k + 1 - nat 0)
       \<and> sleeps (snd (GetData_loop net retries 0 [])) = sleeps [] + (k - nat 0)"
    using h by (intro loop_first_success) simp_all
  show "fst (GetData net retries) = Inr d" using * by (simp add: GetData_def)
  show "attempts (snd (GetData net retries)) = k + 1"
    using * by (simp add: GetData_def attempts_Sleep)
  show "sleeps (snd (GetData net retries)) = k"
    using * by (simp add: GetData_def attempts_Sleep)
qed

lemma timeout_io_result: "fst (getData timeout_io) = Inl (BadResponseSize 0)"
  by (simp add: getData_eq timeout_io_def read_n_def)

theorem GetData_retry_policy_witness:
  "(1::int) \<le> 3
   \<and> fst (GetData (\<lambda>k. timeout_io) 3) = Inl (Err ''failed to get data after retries'')
   \<and> attempts (snd (GetData (\<lambda>k. timeout_io) 3)) = 3
   \<and> sleeps (snd (GetData (\<lambda>k. timeout_io) 3)) = 2
   \<and> fst (GetData (\<lambda>k. if k = 1 then good_io else timeout_io) 3)
       = Inr (decoded 0 (replicate 149 0))
   \<and> attempts (snd (GetData (\<lambda>k. if k = 1 then good_io else timeout_io) 3)) = 2
   \<and> sleeps (snd (GetData (\<lambda>k. if k = 1 then good_io else timeout_io) 3)) = 1"
  using GetData_retry_policy [of 3 "\<lambda>k. timeout_io" 0 "decoded 0 (replicate 149 0)"]
    GetData_retry_policy [of 3 "\<lambda>k. if k = 1 then good_io else timeout_io" 1
      "decoded 0 (replicate 149 0)"]
  by (simp add: timeout_io_result good_io_result)

text \<open>
  C10. With \<open>retries \<le> 0\<close> \<^verbatim>\<open>GetData\<close> performs no socket operation at all (the trace
  is empty) and returns the error "failed to get data after retries".
\<close>

theorem GetData_zero_attempts:
  assumes "retries \<le> 0"
  shows "GetData net retries = (Inl (Err ''failed to get data after retries''), [])"
  using assms by (simp add: GetData_def loop_exit)

theorem GetData_zero_attempts_witness:
  "(0::int) \<le> 0 \<and> (- 1 :: int) \<le> 0
   \<and> GetData (\<lambda>k. good_io) 0 = (Inl (Err ''failed to get data after retries''), [])
   \<and> GetData (\<lambda>k. good_io) (- 1) = (Inl (Err ''failed to get data after retries''), [])"
  using GetData_zero_attempts [of 0 "\<lambda>k. good_io"] GetData_zero_attempts [of "- 1" "\<lambda>k. good_io"]
  by simp

end
